theory Spec2Isabelle
  imports Main "HOL-Library.Sublist"
begin

section \<open>Values and event payloads\<close>

text \<open>
  The coordinator of \<^verbatim>\<open>src/index.js\<close> receives JSON payloads and uses their fields as
  keys of three JavaScript \<^verbatim>\<open>Map\<close>s. Field values are modelled as the primitive
  JavaScript values (numbers restricted to integers); on these, HOL equality is the
  key equality of \<^verbatim>\<open>Map\<close>. A payload is either such a primitive (this includes a
  missing payload, \<^verbatim>\<open>undefined\<close>) or an object given by its property table.
\<close>

type_synonym sid = string

datatype jsval = JUndefined | JNull | JBool bool | JNum int | JStr string

datatype payload = PValue jsval | PObject "(string \<times> jsval) list"

datatype js_error = TypeError

text \<open>\<^verbatim>\<open>!x\<close> is true exactly on the falsy values.\<close>

fun truthy :: "jsval \<Rightarrow> bool" where
  "truthy JUndefined = False"
| "truthy JNull = False"
| "truthy (JBool b) = b"
| "truthy (JNum n) = (n \<noteq> 0)"
| "truthy (JStr s) = (s \<noteq> [])"

text \<open>
  Every handler destructures its argument in the parameter list, e.g.
  \<^verbatim>\<open>({ roomId, email }) => { try { ... } catch ... }\<close>. Destructuring \<^verbatim>\<open>undefined\<close>
  or \<^verbatim>\<open>null\<close> throws a TypeError before the body (and its \<^verbatim>\<open>try\<close>) is entered;
  any other primitive yields \<^verbatim>\<open>undefined\<close> for each of the names the handlers read
  (roomId, email, code, cursorPosition, selection, to, offer, ans).
\<close>

fun nullish :: "payload \<Rightarrow> bool" where
  "nullish (PValue JUndefined) = True"
| "nullish (PValue JNull) = True"
| "nullish _ = False"

fun get_field :: "payload \<Rightarrow> string \<Rightarrow> jsval" where
  "get_field (PValue v) k = JUndefined"
| "get_field (PObject fs) k = (case map_of fs k of None \<Rightarrow> JUndefined | Some v \<Rightarrow> v)"

section \<open>JavaScript Map as an insertion-ordered association list\<close>

type_synonym ('k, 'v) jsmap = "('k \<times> 'v) list"

definition jsmap_get :: "('k, 'v) jsmap \<Rightarrow> 'k \<Rightarrow> 'v option" where
  "jsmap_get m k = map_of m k"

definition jsmap_has :: "('k, 'v) jsmap \<Rightarrow> 'k \<Rightarrow> bool" where
  "jsmap_has m k = (map_of m k \<noteq> None)"

text \<open>\<^verbatim>\<open>set\<close> keeps the position of an existing key and appends a new one.\<close>

fun jsmap_set :: "('k, 'v) jsmap \<Rightarrow> 'k \<Rightarrow> 'v \<Rightarrow> ('k, 'v) jsmap" where
  "jsmap_set [] k v = [(k, v)]"
| "jsmap_set (p # m) k v = (if fst p = k then (k, v) # m else p # jsmap_set m k v)"

definition jsmap_delete :: "('k, 'v) jsmap \<Rightarrow> 'k \<Rightarrow> ('k, 'v) jsmap" where
  "jsmap_delete m k = filter (\<lambda>p. fst p \<noteq> k) m"

definition jsmap_values :: "('k, 'v) jsmap \<Rightarrow> 'v list" where
  "jsmap_values m = map snd m"

definition jsmap_keys :: "('k, 'v) jsmap \<Rightarrow> 'k list" where
  "jsmap_keys m = map fst m"

definition jsmap_size :: "('k, 'v) jsmap \<Rightarrow> nat" where
  "jsmap_size m = length m"

section \<open>The three tables\<close>

datatype user_data = UserData (ud_email: jsval) (ud_roomId: jsval)

datatype room_user = RoomUser (ru_email: jsval) (ru_socketId: sid)

record tables =
  userSocketMap :: "(sid, user_data) jsmap"
  roomCodeMap :: "(jsval, jsval) jsmap"
  activeRooms :: "(jsval, (sid, room_user) jsmap) jsmap"

definition no_tables :: tables where
  "no_tables = \<lparr>userSocketMap = [], roomCodeMap = [], activeRooms = []\<rparr>"

definition getRoomUsers :: "tables \<Rightarrow> jsval \<Rightarrow> room_user list" where
  "getRoomUsers t rid =
     (case jsmap_get (activeRooms t) rid of None \<Rightarrow> [] | Some room \<Rightarrow> jsmap_values room)"

section \<open>Emitted events and transport commands\<close>

datatype out_event =
    ConnectionAck sid
  | Joined jsval jsval "room_user list" jsval
  | UserJoined jsval sid
  | ErrorEv string
  | CodeChanged jsval jsval sid
  | CursorMoved jsval sid
  | SelectionChanged jsval sid
  | UserDisconnected sid jsval
  | IncomingCall sid jsval
  | CallAcceptedEv sid jsval
  | PeerNegoNeededEv sid jsval
  | PeerNegoFinal sid jsval
  | ScreenStarted sid
  | ScreenStopped sid

text \<open>
  What a handler asks of the transport: \<^verbatim>\<open>socket.emit\<close>, \<^verbatim>\<open>socket.join(room)\<close>,
  \<^verbatim>\<open>socket.to(room).emit\<close> and \<^verbatim>\<open>io.to(target).emit\<close>.
\<close>

datatype effect =
    SocketEmit out_event
  | SocketJoin jsval
  | SocketTo jsval out_event
  | IoTo jsval out_event

definition placeholder :: string where
  "placeholder = ''// Start coding here...''"

definition required_msg :: string where
  "required_msg = ''Room ID and email are required''"

section \<open>The handlers\<close>

text \<open>The \<^verbatim>\<open>connection\<close> callback acknowledges the new socket.\<close>

definition connection :: "sid \<Rightarrow> tables \<Rightarrow> js_error + (tables \<times> effect list)" where
  "connection sock t = Inr (t, [SocketEmit (ConnectionAck sock)])"

text \<open>
  \<^verbatim>\<open>join\<close>: the validation error is thrown and caught inside the handler, which then
  reports it to the sender. \<^verbatim>\<open>roomCodeMap.get(roomId) || '...'\<close> yields the
  placeholder for a missing entry and for a falsy stored value.
\<close>

definition current_code :: "tables \<Rightarrow> jsval \<Rightarrow> jsval" where
  "current_code t rid =
     (case jsmap_get (roomCodeMap t) rid of
        None \<Rightarrow> JStr placeholder
      | Some v \<Rightarrow> if truthy v then v else JStr placeholder)"

definition join :: "sid \<Rightarrow> payload \<Rightarrow> tables \<Rightarrow> js_error + (tables \<times> effect list)" where
  "join sock p t =
     (if nullish p then Inl TypeError
      else
        let rid = get_field p ''roomId''; em = get_field p ''email'' in
        if \<not> truthy rid \<or> \<not> truthy em
        then Inr (t, [SocketEmit (ErrorEv (''Failed to join room: '' @ required_msg))])
        else
          let t1 = t\<lparr>userSocketMap := jsmap_set (userSocketMap t) sock (UserData em rid)\<rparr>;
              t2 = (if \<not> jsmap_has (activeRooms t1) rid
                    then t1\<lparr>activeRooms := jsmap_set (activeRooms t1) rid []\<rparr> else t1);
              t3 = (case jsmap_get (activeRooms t2) rid of
                      None \<Rightarrow> t2
                    | Some room \<Rightarrow>
                        t2\<lparr>activeRooms := jsmap_set (activeRooms t2) rid
                                            (jsmap_set room sock (RoomUser em sock))\<rparr>);
              roomUsers = getRoomUsers t3 rid;
              currentCode = current_code t3 rid
          in Inr (t3, [SocketJoin rid,
                       SocketEmit (Joined rid em roomUsers currentCode),
                       SocketTo rid (UserJoined em sock)]))"

definition code_change :: "sid \<Rightarrow> payload \<Rightarrow> tables \<Rightarrow> js_error + (tables \<times> effect list)" where
  "code_change sock p t =
     (if nullish p then Inl TypeError
      else
        let rid = get_field p ''roomId''; code = get_field p ''code'';
            cursorPosition = get_field p ''cursorPosition''
        in Inr (t\<lparr>roomCodeMap := jsmap_set (roomCodeMap t) rid code\<rparr>,
                [SocketTo rid (CodeChanged code cursorPosition sock)]))"

definition cursor_move :: "sid \<Rightarrow> payload \<Rightarrow> tables \<Rightarrow> js_error + (tables \<times> effect list)" where
  "cursor_move sock p t =
     (if nullish p then Inl TypeError
      else Inr (t, [SocketTo (get_field p ''roomId'')
                      (CursorMoved (get_field p ''cursorPosition'') sock)]))"

definition selection_change :: "sid \<Rightarrow> payload \<Rightarrow> tables \<Rightarrow> js_error + (tables \<times> effect list)" where
  "selection_change sock p t =
     (if nullish p then Inl TypeError
      else Inr (t, [SocketTo (get_field p ''roomId'')
                      (SelectionChanged (get_field p ''selection'') sock)]))"

text \<open>
  \<^verbatim>\<open>disconnect\<close>: \<^verbatim>\<open>room.delete(socket.id)\<close> mutates the member map stored in
  \<^verbatim>\<open>activeRooms\<close> in place; an emptied room is removed together with its code.
\<close>

definition disconnect :: "sid \<Rightarrow> jsval \<Rightarrow> tables \<Rightarrow> js_error + (tables \<times> effect list)" where
  "disconnect sock reason t =
     (case jsmap_get (userSocketMap t) sock of
        None \<Rightarrow> Inr (t, [])
      | Some userData \<Rightarrow>
          let em = ud_email userData; rid = ud_roomId userData;
              t1 = t\<lparr>userSocketMap := jsmap_delete (userSocketMap t) sock\<rparr>
          in case jsmap_get (activeRooms t1) rid of
               None \<Rightarrow> Inr (t1, [])
             | Some room \<Rightarrow>
                 let room' = jsmap_delete room sock;
                     t2 = t1\<lparr>activeRooms := jsmap_set (activeRooms t1) rid room'\<rparr>;
                     effs = [SocketTo rid (UserDisconnected sock em)]
                 in if jsmap_size room' = 0
                    then Inr (t2\<lparr>activeRooms := jsmap_delete (activeRooms t2) rid,
                                 roomCodeMap := jsmap_delete (roomCodeMap t2) rid\<rparr>, effs)
                    else Inr (t2, effs))"

text \<open>The WebRTC signalling handlers have no \<^verbatim>\<open>try\<close> at all.\<close>

definition user_call :: "sid \<Rightarrow> payload \<Rightarrow> tables \<Rightarrow> js_error + (tables \<times> effect list)" where
  "user_call sock p t =
     (if nullish p then Inl TypeError
      else Inr (t, [IoTo (get_field p ''to'') (IncomingCall sock (get_field p ''offer''))]))"

definition call_accepted :: "sid \<Rightarrow> payload \<Rightarrow> tables \<Rightarrow> js_error + (tables \<times> effect list)" where
  "call_accepted sock p t =
     (if nullish p then Inl TypeError
      else Inr (t, [IoTo (get_field p ''to'') (CallAcceptedEv sock (get_field p ''ans''))]))"

definition peer_nego_needed :: "sid \<Rightarrow> payload \<Rightarrow> tables \<Rightarrow> js_error + (tables \<times> effect list)" where
  "peer_nego_needed sock p t =
     (if nullish p then Inl TypeError
      else Inr (t, [IoTo (get_field p ''to'') (PeerNegoNeededEv sock (get_field p ''offer''))]))"

definition peer_nego_done :: "sid \<Rightarrow> payload \<Rightarrow> tables \<Rightarrow> js_error + (tables \<times> effect list)" where
  "peer_nego_done sock p t =
     (if nullish p then Inl TypeError
      else Inr (t, [IoTo (get_field p ''to'') (PeerNegoFinal sock (get_field p ''ans''))]))"

definition screen_start :: "sid \<Rightarrow> payload \<Rightarrow> tables \<Rightarrow> js_error + (tables \<times> effect list)" where
  "screen_start sock p t =
     (if nullish p then Inl TypeError
      else Inr (t, [IoTo (get_field p ''to'') (ScreenStarted sock)]))"

definition screen_stop :: "sid \<Rightarrow> payload \<Rightarrow> tables \<Rightarrow> js_error + (tables \<times> effect list)" where
  "screen_stop sock p t =
     (if nullish p then Inl TypeError
      else Inr (t, [IoTo (get_field p ''to'') (ScreenStopped sock)]))"

datatype event =
    Connection
  | Join payload
  | CodeChange payload
  | CursorMove payload
  | SelectionChange payload
  | Disconnect jsval
  | UserCall payload
  | CallAccepted payload
  | PeerNegoNeeded payload
  | PeerNegoDone payload
  | ScreenStart payload
  | ScreenStop payload

fun handle :: "sid \<Rightarrow> event \<Rightarrow> tables \<Rightarrow> js_error + (tables \<times> effect list)" where
  "handle sock Connection t = connection sock t"
| "handle sock (Join p) t = join sock p t"
| "handle sock (CodeChange p) t = code_change sock p t"
| "handle sock (CursorMove p) t = cursor_move sock p t"
| "handle sock (SelectionChange p) t = selection_change sock p t"
| "handle sock (Disconnect reason) t = disconnect sock reason t"
| "handle sock (UserCall p) t = user_call sock p t"
| "handle sock (CallAccepted p) t = call_accepted sock p t"
| "handle sock (PeerNegoNeeded p) t = peer_nego_needed sock p t"
| "handle sock (PeerNegoDone p) t = peer_nego_done sock p t"
| "handle sock (ScreenStart p) t = screen_start sock p t"
| "handle sock (ScreenStop p) t = screen_stop sock p t"

section \<open>The transport and the event loop\<close>

text \<open>
  Modelled from the spec: the transport boundary (the socket.io library is not part of
  the repository). Section 6 of the specification gives it as: a unique identity per
  connection, not reused after disconnect; one disconnect per connection; named
  broadcast groups a connection can join; sending an event to one connection, to all
  members of a group except the sender, or to all members of a group. The source reaches
  one connection with \<^verbatim>\<open>io.to(id)\<close>: in socket.io a connection is, from its start, a member
  of the group named by its own identity, so \<^verbatim>\<open>socket.to(id)\<close> reaches that connection as
  well. A closing connection has left all its groups when its \<^verbatim>\<open>disconnect\<close> handler
  runs. \<open>live\<close> lists the open connections with the groups each is in, \<open>closed\<close> the
  identities of the connections that have gone.
\<close>

record transport =
  live :: "(sid \<times> jsval list) list"
  closed :: "sid list"

definition transport_open :: "sid \<Rightarrow> transport \<Rightarrow> transport" where
  "transport_open c n = n\<lparr>live := live n @ [(c, [JStr c])]\<rparr>"

definition transport_close :: "sid \<Rightarrow> transport \<Rightarrow> transport" where
  "transport_close c n = n\<lparr>live := filter (\<lambda>p. fst p \<noteq> c) (live n), closed := c # closed n\<rparr>"

definition transport_join :: "sid \<Rightarrow> jsval \<Rightarrow> transport \<Rightarrow> transport" where
  "transport_join c g n =
     n\<lparr>live := map (\<lambda>p. if fst p = c then (c, List.insert g (snd p)) else p) (live n)\<rparr>"

fun apply_effect :: "sid \<Rightarrow> effect \<Rightarrow> transport \<Rightarrow> transport" where
  "apply_effect c (SocketJoin g) n = transport_join c g n"
| "apply_effect c _ n = n"

fun recipients :: "transport \<Rightarrow> sid \<Rightarrow> effect \<Rightarrow> sid list" where
  "recipients n c (SocketEmit e) = [c]"
| "recipients n c (SocketJoin g) = []"
| "recipients n c (SocketTo g e) =
     map fst (filter (\<lambda>p. fst p \<noteq> c \<and> g \<in> set (snd p)) (live n))"
| "recipients n c (IoTo target e) =
     map fst (filter (\<lambda>p. target \<in> set (snd p)) (live n))"

text \<open>
  The commands of one handler run in order; each is logged with the connections it
  reaches.
\<close>

fun perform :: "sid \<Rightarrow> transport \<Rightarrow> effect list \<Rightarrow> transport \<times> (effect \<times> sid list) list" where
  "perform c n [] = (n, [])"
| "perform c n (e # es) =
     (let n1 = apply_effect c e n; r = perform c n1 es
      in (fst r, (e, recipients n1 c e) # snd r))"

record world =
  tabs :: tables
  net :: transport

definition init :: world where
  "init = \<lparr>tabs = no_tables, net = \<lparr>live = [], closed = []\<rparr>\<rparr>"

definition is_live :: "transport \<Rightarrow> sid \<Rightarrow> bool" where
  "is_live n c = (c \<in> set (map fst (live n)))"

text \<open>
  A connection event needs a fresh identity; every other event comes from an open
  connection, and \<^verbatim>\<open>disconnect\<close> closes it.
\<close>

fun admissible :: "transport \<Rightarrow> sid \<Rightarrow> event \<Rightarrow> bool" where
  "admissible n c Connection = (\<not> is_live n c \<and> c \<notin> set (closed n))"
| "admissible n c _ = is_live n c"

fun lifecycle :: "sid \<Rightarrow> event \<Rightarrow> transport \<Rightarrow> transport" where
  "lifecycle c Connection n = transport_open c n"
| "lifecycle c (Disconnect reason) n = transport_close c n"
| "lifecycle c _ n = n"

text \<open>
  One event is processed completely before the next. An exception that escapes a handler
  is not caught anywhere in \<^verbatim>\<open>index.js\<close>: the run has no later state.
\<close>

definition step :: "sid \<Rightarrow> event \<Rightarrow> world \<Rightarrow> (world \<times> (effect \<times> sid list) list) option" where
  "step c ev w =
     (if \<not> admissible (net w) c ev then None
      else case handle c ev (tabs w) of
             Inl err \<Rightarrow> None
           | Inr (t', effs) \<Rightarrow>
               let r = perform c (lifecycle c ev (net w)) effs
               in Some (\<lparr>tabs = t', net = fst r\<rparr>, snd r))"

fun run :: "world \<Rightarrow> (sid \<times> event) list \<Rightarrow> world option" where
  "run w [] = Some w"
| "run w ((c, ev) # evs) =
     (case step c ev w of None \<Rightarrow> None | Some (w', log) \<Rightarrow> run w' evs)"

section \<open>Notions used in the statements\<close>

text \<open>
  The members recorded for a room, in insertion order; a run in which one connection
  keeps to its room; the invariants of the tables and of the transport.
\<close>

definition joined_ack :: "js_error + (tables \<times> effect list) \<Rightarrow> bool" where
  "joined_ack r =
     (case r of
        Inl err \<Rightarrow> False
      | Inr (t, effs) \<Rightarrow>
          list_ex (\<lambda>e. case e of SocketEmit (Joined a b c d) \<Rightarrow> True | _ \<Rightarrow> False) effs)"

definition members :: "tables \<Rightarrow> jsval \<Rightarrow> sid list" where
  "members t rid =
     (case jsmap_get (activeRooms t) rid of None \<Rightarrow> [] | Some room \<Rightarrow> jsmap_keys room)"

definition quiet :: "event \<Rightarrow> bool" where
  "quiet ev = (case ev of Connection \<Rightarrow> False | Join p \<Rightarrow> False | Disconnect r \<Rightarrow> False | _ \<Rightarrow> True)"

definition rooms_ok :: "tables \<Rightarrow> bool" where
  "rooms_ok t = (\<forall>g room. jsmap_get (activeRooms t) g = Some room \<longrightarrow> room \<noteq> [])"

definition stays_in_room :: "tables \<Rightarrow> sid \<Rightarrow> event \<Rightarrow> bool" where
  "stays_in_room t c ev =
     (case ev of
        Join p \<Rightarrow>
          (case jsmap_get (userSocketMap t) c of
             None \<Rightarrow> True
           | Some ud \<Rightarrow> \<not> truthy (get_field p ''roomId'') \<or> \<not> truthy (get_field p ''email'') \<or>
                        get_field p ''roomId'' = ud_roomId ud)
      | _ \<Rightarrow> True)"

text \<open>
  A run in which connection \<open>c\<close> makes no valid join for a room other than the one it is
  registered in; the other connections are not restricted.
\<close>

fun own_room_run :: "sid \<Rightarrow> world \<Rightarrow> (sid \<times> event) list \<Rightarrow> bool" where
  "own_room_run c w [] = True"
| "own_room_run c w ((d, ev) # evs) =
     ((d \<noteq> c \<or> stays_in_room (tabs w) c ev) \<and>
      (case step d ev w of None \<Rightarrow> True | Some (w', log) \<Rightarrow> own_room_run c w' evs))"

definition registered :: "sid \<Rightarrow> tables \<Rightarrow> bool" where
  "registered c t = (\<forall>g. c \<in> set (members t g) \<longrightarrow>
      (\<exists>ud. jsmap_get (userSocketMap t) c = Some ud \<and> ud_roomId ud = g))"

definition recorded :: "tables \<Rightarrow> bool" where
  "recorded t = (\<forall>c ud. jsmap_get (userSocketMap t) c = Some ud \<longrightarrow>
      c \<in> set (members t (ud_roomId ud)))"

definition net_ok :: "world \<Rightarrow> bool" where
  "net_ok w =
     (distinct (map fst (live (net w))) \<and>
      (\<forall>d gs g. (d, gs) \<in> set (live (net w)) \<longrightarrow>
         (g \<in> set gs) = (d \<in> set (members (tabs w) g) \<or> g = JStr d)) \<and>
      (\<forall>g d. d \<in> set (members (tabs w) g) \<longrightarrow> is_live (net w) d \<or> d \<in> set (closed (net w))))"

text \<open>
  \<open>reaches w c g rs\<close>: the list \<open>rs\<close> names, once each, the open connections other than
  \<open>c\<close> that are recorded members of room \<open>g\<close> or have \<open>g\<close> as their own identity.
\<close>

definition reaches :: "world \<Rightarrow> sid \<Rightarrow> jsval \<Rightarrow> sid list \<Rightarrow> bool" where
  "reaches w c g rs =
     (distinct rs \<and> c \<notin> set rs \<and>
      set rs = set (filter (\<lambda>d. d \<noteq> c \<and> (d \<in> set (members (tabs w) g) \<or> g = JStr d))
                     (map fst (live (net w)))))"

fun payload_of :: "event \<Rightarrow> payload option" where
  "payload_of Connection = None"
| "payload_of (Disconnect reason) = None"
| "payload_of (Join p) = Some p"
| "payload_of (CodeChange p) = Some p"
| "payload_of (CursorMove p) = Some p"
| "payload_of (SelectionChange p) = Some p"
| "payload_of (UserCall p) = Some p"
| "payload_of (CallAccepted p) = Some p"
| "payload_of (PeerNegoNeeded p) = Some p"
| "payload_of (PeerNegoDone p) = Some p"
| "payload_of (ScreenStart p) = Some p"
| "payload_of (ScreenStop p) = Some p"

section \<open>Lemmas about the tables, the handlers and the event loop\<close>

lemma jsmap_get_set: "jsmap_get (jsmap_set m k v) k' = (if k' = k then Some v else jsmap_get m k')"
  by (induction m) (auto simp: jsmap_get_def)

lemma jsmap_get_delete: "jsmap_get (jsmap_delete m k) k' = (if k' = k then None else jsmap_get m k')"
  by (induction m) (auto simp: jsmap_get_def jsmap_delete_def)

lemma jsmap_has_get: "jsmap_has m k = (jsmap_get m k \<noteq> None)"
  by (simp add: jsmap_has_def jsmap_get_def)

lemma keys_jsmap_set: "set (jsmap_keys (jsmap_set m k v)) = insert k (set (jsmap_keys m))"
  by (induction m) (auto simp: jsmap_keys_def)

lemma keys_jsmap_delete: "jsmap_keys (jsmap_delete m k) = filter (\<lambda>d. d \<noteq> k) (jsmap_keys m)"
  by (induction m) (auto simp: jsmap_keys_def jsmap_delete_def)

lemma jsmap_delete_empty: "(jsmap_size (jsmap_delete m k) = 0) = (set (jsmap_keys m) \<subseteq> {k})"
  by (induction m) (auto simp: jsmap_keys_def jsmap_delete_def jsmap_size_def)

lemma jsmap_size_0: "(jsmap_size m = 0) = (jsmap_keys m = [])"
  by (simp add: jsmap_size_def jsmap_keys_def)

lemma jsmap_keys_simps [simp]:
  "jsmap_keys [] = []" "jsmap_keys (p # m) = fst p # jsmap_keys m"
  by (simp_all add: jsmap_keys_def)

lemma jsmap_delete_Nil: "(jsmap_delete m k = []) = (filter (\<lambda>d. d \<noteq> k) (jsmap_keys m) = [])"
  by (induction m) (auto simp: jsmap_delete_def)

lemma jsmap_keys_Nil: "(jsmap_keys m = []) = (m = [])"
  by (simp add: jsmap_keys_def)

lemma not_nullish_field: "get_field p k \<noteq> JUndefined \<Longrightarrow> \<not> nullish p"
  by (cases p) auto

lemma truthy_field: "truthy (get_field p k) \<Longrightarrow> \<not> nullish p"
  by (rule not_nullish_field[of p k]) auto

lemma join_fail:
  "\<not> nullish p \<Longrightarrow> \<not> (truthy (get_field p ''roomId'') \<and> truthy (get_field p ''email'')) \<Longrightarrow>
   join c p t = Inr (t, [SocketEmit (ErrorEv (''Failed to join room: '' @ required_msg))])"
  by (auto simp: join_def)

lemma join_ok:
  assumes "truthy (get_field p ''roomId'')" and "truthy (get_field p ''email'')"
  shows "\<exists>t'. join c p t =
           Inr (t', [SocketJoin (get_field p ''roomId''),
                     SocketEmit (Joined (get_field p ''roomId'') (get_field p ''email'')
                                   (getRoomUsers t' (get_field p ''roomId''))
                                   (current_code t' (get_field p ''roomId''))),
                     SocketTo (get_field p ''roomId'') (UserJoined (get_field p ''email'') c)]) \<and>
           userSocketMap t' = jsmap_set (userSocketMap t) c
                                (UserData (get_field p ''email'') (get_field p ''roomId'')) \<and>
           roomCodeMap t' = roomCodeMap t \<and>
           (\<forall>g. set (members t' g) = (if g = get_field p ''roomId''
                                then insert c (set (members t g)) else set (members t g))) \<and>
           (\<forall>g. g \<noteq> get_field p ''roomId'' \<longrightarrow> jsmap_get (activeRooms t') g = jsmap_get (activeRooms t) g)"
  using assms truthy_field[OF assms(1)]
  by (auto simp: join_def Let_def jsmap_has_get jsmap_get_set members_def keys_jsmap_set
      split: option.splits)

lemma code_change_Inr:
  "code_change c p t = Inr (t', effs) \<Longrightarrow>
   \<not> nullish p \<and>
   t' = t\<lparr>roomCodeMap := jsmap_set (roomCodeMap t) (get_field p ''roomId'') (get_field p ''code'')\<rparr> \<and>
   effs = [SocketTo (get_field p ''roomId'')
             (CodeChanged (get_field p ''code'') (get_field p ''cursorPosition'') c)]"
  by (auto simp: code_change_def Let_def split: if_splits)

lemma disconnect_none:
  "jsmap_get (userSocketMap t) c = None \<Longrightarrow> disconnect c reason t = Inr (t, [])"
  by (simp add: disconnect_def)

lemma disconnect_some:
  assumes "jsmap_get (userSocketMap t) c = Some ud"
  shows "\<exists>t' effs. disconnect c reason t = Inr (t', effs) \<and>
           effs = (if jsmap_get (activeRooms t) (ud_roomId ud) = None then []
                   else [SocketTo (ud_roomId ud) (UserDisconnected c (ud_email ud))]) \<and>
           userSocketMap t' = jsmap_delete (userSocketMap t) c \<and>
           (\<forall>g. members t' g = (if g = ud_roomId ud then filter (\<lambda>d. d \<noteq> c) (members t g) else members t g)) \<and>
           (\<forall>g. g \<noteq> ud_roomId ud \<longrightarrow> jsmap_get (activeRooms t') g = jsmap_get (activeRooms t) g \<and>
                  jsmap_get (roomCodeMap t') g = jsmap_get (roomCodeMap t) g) \<and>
           (\<forall>room. jsmap_get (activeRooms t') (ud_roomId ud) = Some room \<longrightarrow> room \<noteq> []) \<and>
           (roomCodeMap t' = roomCodeMap t \<or>
              jsmap_get (activeRooms t) (ud_roomId ud) \<noteq> None \<and>
              jsmap_get (activeRooms t') (ud_roomId ud) = None \<and>
              roomCodeMap t' = jsmap_delete (roomCodeMap t) (ud_roomId ud)) \<and>
           (jsmap_get (activeRooms t) (ud_roomId ud) \<noteq> None \<longrightarrow>
              jsmap_get (activeRooms t') (ud_roomId ud) = None \<longrightarrow>
              jsmap_get (roomCodeMap t') (ud_roomId ud) = None)"
proof (cases "jsmap_get (activeRooms t) (ud_roomId ud)")
  case None
  then show ?thesis using assms
    by (simp add: disconnect_def Let_def members_def)
next
  case (Some room)
  then show ?thesis using assms
    by (auto simp: disconnect_def Let_def jsmap_get_set jsmap_get_delete members_def
          keys_jsmap_delete jsmap_size_0 jsmap_delete_Nil)
qed

lemma perform_plain:
  "\<forall>e \<in> set effs. \<forall>g. e \<noteq> SocketJoin g \<Longrightarrow>
   perform c n effs = (n, map (\<lambda>e. (e, recipients n c e)) effs)"
proof (induction effs)
  case Nil
  then show ?case by simp
next
  case (Cons e es)
  then have "apply_effect c e n = n" by (cases e) auto
  with Cons show ?case by (simp add: Let_def)
qed

lemma step_SomeD:
  assumes "step c ev w = Some (w', log)"
  shows "admissible (net w) c ev \<and>
         (\<exists>effs. handle c ev (tabs w) = Inr (tabs w', effs) \<and>
            net w' = fst (perform c (lifecycle c ev (net w)) effs) \<and>
            log = snd (perform c (lifecycle c ev (net w)) effs))"
  using assms
  by (auto simp: step_def Let_def split: if_splits sum.splits prod.splits)

lemma step_Connection:
  assumes "step c Connection w = Some (w', log)"
  shows "\<not> is_live (net w) c \<and> c \<notin> set (closed (net w)) \<and> tabs w' = tabs w \<and>
         net w' = transport_open c (net w) \<and> log = [(SocketEmit (ConnectionAck c), [c])]"
  using step_SomeD[OF assms] by (auto simp: connection_def Let_def)

lemma step_Join_fail:
  assumes "step c (Join p) w = Some (w', log)"
    and "\<not> (truthy (get_field p ''roomId'') \<and> truthy (get_field p ''email''))"
  shows "w' = w \<and> log = [(SocketEmit (ErrorEv (''Failed to join room: '' @ required_msg)), [c])]"
proof -
  from step_SomeD[OF assms(1)] obtain effs where
    h: "join c p (tabs w) = Inr (tabs w', effs)" and n: "net w' = fst (perform c (net w) effs)"
    and l: "log = snd (perform c (net w) effs)" by auto
  have nn: "\<not> nullish p" using h by (auto simp: join_def split: if_splits)
  from join_fail[OF nn assms(2), of c "tabs w"] h
  have "tabs w' = tabs w" and "effs = [SocketEmit (ErrorEv (''Failed to join room: '' @ required_msg))]"
    by auto
  with n l show ?thesis by (simp add: Let_def)
qed

lemma step_Join_ok:
  assumes "step c (Join p) w = Some (w', log)"
    and "truthy (get_field p ''roomId'')" and "truthy (get_field p ''email'')"
  shows "is_live (net w) c \<and> net w' = transport_join c (get_field p ''roomId'') (net w) \<and>
         log = [(SocketJoin (get_field p ''roomId''), []),
                (SocketEmit (Joined (get_field p ''roomId'') (get_field p ''email'')
                               (getRoomUsers (tabs w') (get_field p ''roomId''))
                               (current_code (tabs w') (get_field p ''roomId''))), [c]),
                (SocketTo (get_field p ''roomId'') (UserJoined (get_field p ''email'') c),
                 recipients (net w') c
                   (SocketTo (get_field p ''roomId'') (UserJoined (get_field p ''email'') c)))] \<and>
         userSocketMap (tabs w') = jsmap_set (userSocketMap (tabs w)) c
                                (UserData (get_field p ''email'') (get_field p ''roomId'')) \<and>
         roomCodeMap (tabs w') = roomCodeMap (tabs w) \<and>
         (\<forall>g. set (members (tabs w') g) = (if g = get_field p ''roomId''
                                then insert c (set (members (tabs w) g))
                                else set (members (tabs w) g))) \<and>
         (\<forall>g. g \<noteq> get_field p ''roomId'' \<longrightarrow>
              jsmap_get (activeRooms (tabs w')) g = jsmap_get (activeRooms (tabs w)) g)"
proof -
  from step_SomeD[OF assms(1)] obtain effs where
    a: "is_live (net w) c" and
    h: "join c p (tabs w) = Inr (tabs w', effs)" and n: "net w' = fst (perform c (net w) effs)"
    and l: "log = snd (perform c (net w) effs)" by auto
  from join_ok[OF assms(2,3), of c "tabs w"] h
  show ?thesis using a n l
    by (auto simp: Let_def)
qed

lemma step_Disconnect:
  assumes "step c (Disconnect r) w = Some (w', log)"
  shows "is_live (net w) c \<and> net w' = transport_close c (net w) \<and>
         (\<exists>effs. disconnect c r (tabs w) = Inr (tabs w', effs) \<and>
                 log = map (\<lambda>e. (e, recipients (net w') c e)) effs)"
proof -
  from step_SomeD[OF assms(1)] obtain effs where
    a: "is_live (net w) c" and
    h: "disconnect c r (tabs w) = Inr (tabs w', effs)"
    and n: "net w' = fst (perform c (transport_close c (net w)) effs)"
    and l: "log = snd (perform c (transport_close c (net w)) effs)" by auto
  have "\<forall>e \<in> set effs. \<forall>g. e \<noteq> SocketJoin g"
    using h by (auto simp: disconnect_def Let_def split: option.splits if_splits)
  from perform_plain[OF this] a h n l show ?thesis by simp
qed

lemma step_quiet:
  assumes "step c ev w = Some (w', log)" and "quiet ev"
  shows "is_live (net w) c \<and> net w' = net w \<and> activeRooms (tabs w') = activeRooms (tabs w) \<and>
         userSocketMap (tabs w') = userSocketMap (tabs w) \<and>
         (\<exists>effs. handle c ev (tabs w) = Inr (tabs w', effs) \<and>
                 log = map (\<lambda>e. (e, recipients (net w) c e)) effs)"
proof -
  from step_SomeD[OF assms(1)] obtain effs where
    a: "admissible (net w) c ev" and
    h: "handle c ev (tabs w) = Inr (tabs w', effs)"
    and n: "net w' = fst (perform c (lifecycle c ev (net w)) effs)"
    and l: "log = snd (perform c (lifecycle c ev (net w)) effs)" by auto
  have lc: "lifecycle c ev (net w) = net w" and al: "is_live (net w) c"
    using assms(2) a by (cases ev; simp add: quiet_def)+
  have "(\<forall>e \<in> set effs. \<forall>g. e \<noteq> SocketJoin g) \<and> activeRooms (tabs w') = activeRooms (tabs w) \<and>
         userSocketMap (tabs w') = userSocketMap (tabs w)"
    using h[symmetric] assms(2)
    by (cases ev) (auto simp: quiet_def code_change_def cursor_move_def selection_change_def
        user_call_def call_accepted_def peer_nego_needed_def peer_nego_done_def
        screen_start_def screen_stop_def Let_def split: if_splits)
  with perform_plain[of effs c "net w"] lc al h n l show ?thesis by simp
qed

lemma members_nonempty_iff:
  "(members t g \<noteq> []) = (\<exists>room. jsmap_get (activeRooms t) g = Some room \<and> room \<noteq> [])"
  by (auto simp: members_def jsmap_keys_Nil split: option.splits)

lemma rooms_ok_step:
  assumes "rooms_ok (tabs w)" and "step c ev w = Some (w', log)"
  shows "rooms_ok (tabs w')"
proof (cases ev)
  case Connection
  with assms step_Connection[of c w w' log] show ?thesis by simp
next
  case (Join p)
  show ?thesis
  proof (cases "truthy (get_field p ''roomId'') \<and> truthy (get_field p ''email'')")
    case False
    with assms Join step_Join_fail[of c p w w' log] show ?thesis by simp
  next
    case True
    with assms Join step_Join_ok[of c p w w' log]
    have m: "\<forall>g. set (members (tabs w') g) = (if g = get_field p ''roomId''
                                then insert c (set (members (tabs w) g))
                                else set (members (tabs w) g))"
      and o: "\<forall>g. g \<noteq> get_field p ''roomId'' \<longrightarrow>
              jsmap_get (activeRooms (tabs w')) g = jsmap_get (activeRooms (tabs w)) g"
      by auto
    show ?thesis unfolding rooms_ok_def
    proof (intro allI impI)
      fix g room assume r: "jsmap_get (activeRooms (tabs w')) g = Some room"
      show "room \<noteq> []"
      proof (cases "g = get_field p ''roomId''")
        case True
        with m have "c \<in> set (members (tabs w') g)" by simp
        then have "members (tabs w') g \<noteq> []" by auto
        with r show ?thesis by (simp add: members_nonempty_iff)
      next
        case False
        with o r assms(1) show ?thesis by (simp add: rooms_ok_def)
      qed
    qed
  qed
next
  case (Disconnect r)
  with assms step_Disconnect[of c r w w' log] obtain effs where
    d: "disconnect c r (tabs w) = Inr (tabs w', effs)" by auto
  show ?thesis
  proof (cases "jsmap_get (userSocketMap (tabs w)) c")
    case None
    with d disconnect_none[of "tabs w" c r] assms(1) show ?thesis by simp
  next
    case (Some ud)
    from disconnect_some[OF Some, of r] d
    have o: "\<forall>g. g \<noteq> ud_roomId ud \<longrightarrow> jsmap_get (activeRooms (tabs w')) g = jsmap_get (activeRooms (tabs w)) g"
      and e: "\<forall>room. jsmap_get (activeRooms (tabs w')) (ud_roomId ud) = Some room \<longrightarrow> room \<noteq> []"
      by auto
    show ?thesis unfolding rooms_ok_def
    proof (intro allI impI)
      fix g room assume r: "jsmap_get (activeRooms (tabs w')) g = Some room"
      show "room \<noteq> []"
        using o e r assms(1) by (cases "g = ud_roomId ud") (auto simp: rooms_ok_def)
    qed
  qed
qed (use assms step_quiet[of c ev w w' log] in \<open>auto simp: quiet_def rooms_ok_def\<close>)

lemma run_rooms_ok: "rooms_ok (tabs w0) \<Longrightarrow> run w0 evs = Some w \<Longrightarrow> rooms_ok (tabs w)"
proof (induction evs arbitrary: w0)
  case Nil
  then show ?case by simp
next
  case (Cons a evs)
  obtain c ev where a: "a = (c, ev)" by (cases a)
  from Cons.prems(2) a obtain w1 log where s: "step c ev w0 = Some (w1, log)" and r: "run w1 evs = Some w"
    by (auto split: option.splits)
  from Cons.IH[OF rooms_ok_step[OF Cons.prems(1) s] r] show ?case .
qed

lemma rooms_ok_init: "rooms_ok (tabs init)"
  by (simp add: rooms_ok_def init_def no_tables_def jsmap_get_def)

lemma jsmap_has_set: "jsmap_has m g \<Longrightarrow> jsmap_has (jsmap_set m k v) g"
  by (simp add: jsmap_has_get jsmap_get_set)

lemma step_code_room:
  assumes "step c ev w = Some (w', log)"
  shows "(jsmap_has (roomCodeMap (tabs w)) g \<and> \<not> jsmap_has (roomCodeMap (tabs w')) g \<longrightarrow>
            jsmap_has (activeRooms (tabs w)) g \<and> \<not> jsmap_has (activeRooms (tabs w')) g) \<and>
         (jsmap_has (activeRooms (tabs w)) g \<and> \<not> jsmap_has (activeRooms (tabs w')) g \<longrightarrow>
            \<not> jsmap_has (roomCodeMap (tabs w')) g)"
proof (cases ev)
  case Connection
  with assms step_Connection[of c w w' log] show ?thesis by simp
next
  case (Join p)
  show ?thesis
  proof (cases "truthy (get_field p ''roomId'') \<and> truthy (get_field p ''email'')")
    case False
    with assms Join step_Join_fail[of c p w w' log] show ?thesis by simp
  next
    case True
    with assms Join step_Join_ok[of c p w w' log]
    have m: "\<forall>g. set (members (tabs w') g) = (if g = get_field p ''roomId''
                                then insert c (set (members (tabs w) g))
                                else set (members (tabs w) g))"
      and o: "\<forall>g. g \<noteq> get_field p ''roomId'' \<longrightarrow>
              jsmap_get (activeRooms (tabs w')) g = jsmap_get (activeRooms (tabs w)) g"
      and k: "roomCodeMap (tabs w') = roomCodeMap (tabs w)"
      by auto
    from m have "c \<in> set (members (tabs w') (get_field p ''roomId''))" by simp
    then have "members (tabs w') (get_field p ''roomId'') \<noteq> []" by auto
    then have "jsmap_has (activeRooms (tabs w')) (get_field p ''roomId'')"
      by (auto simp: members_nonempty_iff jsmap_has_get)
    with o k show ?thesis by (cases "g = get_field p ''roomId''") (auto simp: jsmap_has_get)
  qed
next
  case (Disconnect r)
  with assms step_Disconnect[of c r w w' log] obtain effs where
    d: "disconnect c r (tabs w) = Inr (tabs w', effs)" by auto
  show ?thesis
  proof (cases "jsmap_get (userSocketMap (tabs w)) c")
    case None
    with d disconnect_none[of "tabs w" c r] show ?thesis by simp
  next
    case (Some ud)
    from disconnect_some[OF Some, of r] d
    show ?thesis
      by (cases "g = ud_roomId ud") (auto simp: jsmap_has_get jsmap_get_delete)
  qed
next
  case (CodeChange p)
  with assms have "step c (CodeChange p) w = Some (w', log)" by simp
  from step_quiet[OF this] have a: "activeRooms (tabs w') = activeRooms (tabs w)"
    and "\<exists>effs. code_change c p (tabs w) = Inr (tabs w', effs)" by (auto simp: quiet_def)
  then have "roomCodeMap (tabs w') = jsmap_set (roomCodeMap (tabs w)) (get_field p ''roomId'') (get_field p ''code'')"
    by (auto dest!: code_change_Inr)
  with a show ?thesis by (auto simp: jsmap_has_set)
qed (use assms step_quiet[of c ev w w' log] in
      \<open>auto simp: quiet_def cursor_move_def selection_change_def
        user_call_def call_accepted_def peer_nego_needed_def peer_nego_done_def
        screen_start_def screen_stop_def split: if_splits\<close>)

lemma registeredD:
  "registered c t \<Longrightarrow> c \<in> set (members t g) \<Longrightarrow>
   \<exists>ud. jsmap_get (userSocketMap t) c = Some ud \<and> ud_roomId ud = g"
  by (simp add: registered_def)

lemma registered_step:
  assumes "registered c0 (tabs w)" and "step c ev w = Some (w', log)"
    and "c \<noteq> c0 \<or> stays_in_room (tabs w) c0 ev"
  shows "registered c0 (tabs w')"
proof (cases ev)
  case Connection
  with assms step_Connection[of c w w' log] show ?thesis by simp
next
  case (Join p)
  show ?thesis
  proof (cases "truthy (get_field p ''roomId'') \<and> truthy (get_field p ''email'')")
    case False
    with assms Join step_Join_fail[of c p w w' log] show ?thesis by simp
  next
    case True
    with assms Join step_Join_ok[of c p w w' log]
    have m: "\<forall>g. set (members (tabs w') g) = (if g = get_field p ''roomId''
                                then insert c (set (members (tabs w) g))
                                else set (members (tabs w) g))"
      and u: "userSocketMap (tabs w') = jsmap_set (userSocketMap (tabs w)) c
                                (UserData (get_field p ''email'') (get_field p ''roomId''))"
      by auto
    show ?thesis unfolding registered_def
    proof (intro allI impI)
      fix g assume d: "c0 \<in> set (members (tabs w') g)"
      show "\<exists>ud. jsmap_get (userSocketMap (tabs w')) c0 = Some ud \<and> ud_roomId ud = g"
      proof (cases "c = c0")
        case False
        with d m have old: "c0 \<in> set (members (tabs w) g)" by (auto split: if_splits)
        from registeredD[OF assms(1) old] False u show ?thesis by (auto simp: jsmap_get_set)
      next
        case cc: True
        show ?thesis
        proof (cases "g = get_field p ''roomId''")
          case True
          with cc u show ?thesis by (simp add: jsmap_get_set)
        next
          case False
          with d m cc have old: "c0 \<in> set (members (tabs w) g)" by auto
          from registeredD[OF assms(1) old] obtain ud where
            "jsmap_get (userSocketMap (tabs w)) c0 = Some ud" "ud_roomId ud = g" by auto
          with assms(3) cc Join True False show ?thesis by (auto simp: stays_in_room_def)
        qed
      qed
    qed
  qed
next
  case (Disconnect r)
  with assms step_Disconnect[of c r w w' log] obtain effs where
    d: "disconnect c r (tabs w) = Inr (tabs w', effs)" by auto
  show ?thesis
  proof (cases "jsmap_get (userSocketMap (tabs w)) c")
    case None
    with d disconnect_none[of "tabs w" c r] assms(1) show ?thesis by simp
  next
    case (Some ud)
    from disconnect_some[OF Some, of r] d
    have m: "\<forall>g. members (tabs w') g =
               (if g = ud_roomId ud then filter (\<lambda>d. d \<noteq> c) (members (tabs w) g)
                else members (tabs w) g)"
      and u: "userSocketMap (tabs w') = jsmap_delete (userSocketMap (tabs w)) c"
      by auto
    show ?thesis unfolding registered_def
    proof (intro allI impI)
      fix g assume d: "c0 \<in> set (members (tabs w') g)"
      with m have old: "c0 \<in> set (members (tabs w) g)" by (auto split: if_splits)
      have "c0 \<noteq> c"
      proof
        assume "c0 = c"
        with registeredD[OF assms(1) old] Some have "g = ud_roomId ud" by auto
        with d m \<open>c0 = c\<close> show False by simp
      qed
      with registeredD[OF assms(1) old] u
      show "\<exists>ud. jsmap_get (userSocketMap (tabs w')) c0 = Some ud \<and> ud_roomId ud = g"
        by (auto simp: jsmap_get_delete)
    qed
  qed
qed (use assms step_quiet[of c ev w w' log] in \<open>auto simp: quiet_def registered_def members_def\<close>)

lemma run_registered:
  "registered c0 (tabs w0) \<Longrightarrow> run w0 evs = Some w \<Longrightarrow> own_room_run c0 w0 evs \<Longrightarrow>
   registered c0 (tabs w)"
proof (induction evs arbitrary: w0)
  case Nil
  then show ?case by simp
next
  case (Cons a evs)
  obtain c ev where a: "a = (c, ev)" by (cases a)
  from Cons.prems(2) a obtain w1 log where s: "step c ev w0 = Some (w1, log)" and r: "run w1 evs = Some w"
    by (auto split: option.splits)
  from Cons.prems(3) a s have g: "c \<noteq> c0 \<or> stays_in_room (tabs w0) c0 ev"
    and sr: "own_room_run c0 w1 evs"
    by auto
  from Cons.IH[OF registered_step[OF Cons.prems(1) s g] r sr] show ?case .
qed

lemma registered_init: "registered c (tabs init)"
  by (simp add: registered_def init_def no_tables_def members_def jsmap_get_def)

lemma recorded_step:
  assumes "recorded (tabs w)" and "step c ev w = Some (w', log)"
  shows "recorded (tabs w')"
proof (cases ev)
  case Connection
  with assms step_Connection[of c w w' log] show ?thesis by simp
next
  case (Join p)
  show ?thesis
  proof (cases "truthy (get_field p ''roomId'') \<and> truthy (get_field p ''email'')")
    case False
    with assms Join step_Join_fail[of c p w w' log] show ?thesis by simp
  next
    case True
    with assms Join step_Join_ok[of c p w w' log]
    have m: "\<forall>g. set (members (tabs w') g) = (if g = get_field p ''roomId''
                                then insert c (set (members (tabs w) g))
                                else set (members (tabs w) g))"
      and u: "userSocketMap (tabs w') = jsmap_set (userSocketMap (tabs w)) c
                                (UserData (get_field p ''email'') (get_field p ''roomId''))"
      by auto
    show ?thesis unfolding recorded_def
    proof (intro allI impI)
      fix d ud assume g: "jsmap_get (userSocketMap (tabs w')) d = Some ud"
      show "d \<in> set (members (tabs w') (ud_roomId ud))"
      proof (cases "d = c")
        case True
        with g u have "ud_roomId ud = get_field p ''roomId''" by (auto simp: jsmap_get_set)
        with m True show ?thesis by simp
      next
        case False
        with g u have "jsmap_get (userSocketMap (tabs w)) d = Some ud" by (simp add: jsmap_get_set)
        with assms(1) have "d \<in> set (members (tabs w) (ud_roomId ud))" by (simp add: recorded_def)
        with m show ?thesis by auto
      qed
    qed
  qed
next
  case (Disconnect r)
  with assms step_Disconnect[of c r w w' log] obtain effs where
    d: "disconnect c r (tabs w) = Inr (tabs w', effs)" by auto
  show ?thesis
  proof (cases "jsmap_get (userSocketMap (tabs w)) c")
    case None
    with d disconnect_none[of "tabs w" c r] assms(1) show ?thesis by simp
  next
    case (Some ud0)
    from disconnect_some[OF Some, of r] d
    have m: "\<forall>g. members (tabs w') g =
               (if g = ud_roomId ud0 then filter (\<lambda>d. d \<noteq> c) (members (tabs w) g)
                else members (tabs w) g)"
      and u: "userSocketMap (tabs w') = jsmap_delete (userSocketMap (tabs w)) c"
      by auto
    show ?thesis unfolding recorded_def
    proof (intro allI impI)
      fix d ud assume g: "jsmap_get (userSocketMap (tabs w')) d = Some ud"
      with u have dc: "d \<noteq> c" and "jsmap_get (userSocketMap (tabs w)) d = Some ud"
        by (auto simp: jsmap_get_delete split: if_splits)
      with assms(1) have "d \<in> set (members (tabs w) (ud_roomId ud))" by (simp add: recorded_def)
      with m dc show "d \<in> set (members (tabs w') (ud_roomId ud))" by auto
    qed
  qed
qed (use assms step_quiet[of c ev w w' log] in \<open>auto simp: quiet_def recorded_def members_def\<close>)

lemma run_recorded: "recorded (tabs w0) \<Longrightarrow> run w0 evs = Some w \<Longrightarrow> recorded (tabs w)"
proof (induction evs arbitrary: w0)
  case Nil
  then show ?case by simp
next
  case (Cons a evs)
  obtain c ev where a: "a = (c, ev)" by (cases a)
  from Cons.prems(2) a obtain w1 log where s: "step c ev w0 = Some (w1, log)" and r: "run w1 evs = Some w"
    by (auto split: option.splits)
  from Cons.IH[OF recorded_step[OF Cons.prems(1) s] r] show ?case .
qed

lemma recorded_init: "recorded (tabs init)"
  by (simp add: recorded_def init_def no_tables_def jsmap_get_def)

lemma live_open: "live (transport_open c n) = live n @ [(c, [JStr c])]"
  "closed (transport_open c n) = closed n"
  by (simp_all add: transport_open_def)

lemma live_close: "live (transport_close c n) = filter (\<lambda>p. fst p \<noteq> c) (live n)"
  "closed (transport_close c n) = c # closed n"
  by (simp_all add: transport_close_def)

lemma live_join_keys: "map fst (live (transport_join c g n)) = map fst (live n)"
  by (simp add: transport_join_def comp_def cong: map_cong)

lemma closed_join: "closed (transport_join c g n) = closed n"
  by (simp add: transport_join_def)

lemma join_groups_mem:
  "((d, gs) \<in> set (map (\<lambda>p. if fst p = c then (c, List.insert g (snd p)) else p) xs)) =
     (if d = c then \<exists>gs0. (c, gs0) \<in> set xs \<and> gs = List.insert g gs0
      else (d, gs) \<in> set xs)"
  by (induction xs) auto

lemma live_join_mem:
  "((d, gs) \<in> set (live (transport_join c g n))) =
     (if d = c then \<exists>gs0. (c, gs0) \<in> set (live n) \<and> gs = List.insert g gs0
      else (d, gs) \<in> set (live n))"
proof -
  have "live (transport_join c g n) =
          map (\<lambda>p. if fst p = c then (c, List.insert g (snd p)) else p) (live n)"
    by (simp add: transport_join_def)
  then show ?thesis by (simp only: join_groups_mem)
qed

lemma is_live_iff: "is_live n d = (\<exists>gs. (d, gs) \<in> set (live n))"
  by (force simp: is_live_def)

lemma is_live_join: "is_live (transport_join c g n) d = is_live n d"
  by (simp add: is_live_def live_join_keys del: set_map)

lemma perform_keys:
  "map fst (live (fst (perform c n effs))) = map fst (live n) \<and>
   closed (fst (perform c n effs)) = closed n"
proof (induction effs arbitrary: n)
  case Nil
  then show ?case by simp
next
  case (Cons e es)
  have "map fst (live (apply_effect c e n)) = map fst (live n) \<and>
        closed (apply_effect c e n) = closed n"
    by (cases e) (simp_all add: live_join_keys closed_join)
  with Cons.IH[of "apply_effect c e n"] show ?case by (simp add: Let_def)
qed

lemma step_net:
  assumes "step c ev w = Some (w', log)"
  shows "map fst (live (net w')) = map fst (live (lifecycle c ev (net w))) \<and>
         closed (net w') = closed (lifecycle c ev (net w))"
proof -
  from step_SomeD[OF assms] obtain effs where
    "net w' = fst (perform c (lifecycle c ev (net w)) effs)" by auto
  with perform_keys[of c "lifecycle c ev (net w)" effs] show ?thesis by simp
qed

lemma net_okD1: "net_ok w \<Longrightarrow> distinct (map fst (live (net w)))"
  by (simp add: net_ok_def)

lemma net_okD2:
  "net_ok w \<Longrightarrow> (d, gs) \<in> set (live (net w)) \<Longrightarrow>
   (g \<in> set gs) = (d \<in> set (members (tabs w) g) \<or> g = JStr d)"
  by (simp add: net_ok_def)

lemma net_okD3:
  "net_ok w \<Longrightarrow> d \<in> set (members (tabs w) g) \<Longrightarrow> is_live (net w) d \<or> d \<in> set (closed (net w))"
  by (simp add: net_ok_def)

lemma net_ok_same:
  assumes "net_ok w" and "net w' = net w" and "activeRooms (tabs w') = activeRooms (tabs w)"
  shows "net_ok w'"
proof -
  have "members (tabs w') = members (tabs w)" using assms(3) by (simp add: members_def fun_eq_iff)
  with assms(1,2) show ?thesis by (simp add: net_ok_def)
qed

lemma net_ok_step:
  assumes ok: "net_ok w" and st: "step c ev w = Some (w', log)"
  shows "net_ok w'"
proof (cases ev)
  case Connection
  from st Connection step_Connection[of c w w' log]
  have f: "\<not> is_live (net w) c" "c \<notin> set (closed (net w))" and t: "tabs w' = tabs w"
    and n: "net w' = transport_open c (net w)" by auto
  from net_okD3[OF ok] f have nm: "\<And>g. c \<notin> set (members (tabs w) g)" by blast
  have 1: "distinct (map fst (live (net w')))"
    using net_okD1[OF ok] f(1) by (simp add: n live_open is_live_def)
  have 2: "\<forall>d gs g. (d, gs) \<in> set (live (net w')) \<longrightarrow>
             (g \<in> set gs) = (d \<in> set (members (tabs w') g) \<or> g = JStr d)"
  proof (intro allI impI)
    fix d gs g assume "(d, gs) \<in> set (live (net w'))"
    then consider "(d, gs) \<in> set (live (net w))" | "d = c" "gs = [JStr c]"
      by (auto simp: n live_open)
    then show "(g \<in> set gs) = (d \<in> set (members (tabs w') g) \<or> g = JStr d)"
    proof cases
      case 1
      from net_okD2[OF ok 1] show ?thesis by (simp add: t)
    next
      case 2
      with nm show ?thesis by (simp add: t)
    qed
  qed
  have 3: "\<forall>g d. d \<in> set (members (tabs w') g) \<longrightarrow> is_live (net w') d \<or> d \<in> set (closed (net w'))"
  proof (intro allI impI)
    fix g d assume "d \<in> set (members (tabs w') g)"
    then have "d \<in> set (members (tabs w) g)" by (simp add: t)
    from net_okD3[OF ok this] show "is_live (net w') d \<or> d \<in> set (closed (net w'))"
      by (auto simp: n live_open is_live_def)
  qed
  from 1 2 3 show ?thesis unfolding net_ok_def by blast
next
  case (Join p)
  show ?thesis
  proof (cases "truthy (get_field p ''roomId'') \<and> truthy (get_field p ''email'')")
    case False
    with st Join step_Join_fail[of c p w w' log] ok show ?thesis by simp
  next
    case True
    with st Join step_Join_ok[of c p w w' log]
    have m: "\<And>g. set (members (tabs w') g) = (if g = get_field p ''roomId''
                                then insert c (set (members (tabs w) g))
                                else set (members (tabs w) g))"
      and n: "net w' = transport_join c (get_field p ''roomId'') (net w)"
      and l: "is_live (net w) c"
      by auto
    have 1: "distinct (map fst (live (net w')))"
      using net_okD1[OF ok] by (simp add: n live_join_keys)
    have 2: "\<forall>d gs g. (d, gs) \<in> set (live (net w')) \<longrightarrow>
               (g \<in> set gs) = (d \<in> set (members (tabs w') g) \<or> g = JStr d)"
    proof (intro allI impI)
      fix d gs g assume a: "(d, gs) \<in> set (live (net w'))"
      show "(g \<in> set gs) = (d \<in> set (members (tabs w') g) \<or> g = JStr d)"
      proof (cases "d = c")
        case True
        with a obtain gs0 where g0: "(c, gs0) \<in> set (live (net w))"
          and gs: "gs = List.insert (get_field p ''roomId'') gs0"
          by (auto simp: n live_join_mem)
        from net_okD2[OF ok g0, of g] True gs show ?thesis by (auto simp: m)
      next
        case False
        with a have "(d, gs) \<in> set (live (net w))" by (simp add: n live_join_mem)
        from net_okD2[OF ok this, of g] False show ?thesis by (simp add: m)
      qed
    qed
    have 3: "\<forall>g d. d \<in> set (members (tabs w') g) \<longrightarrow> is_live (net w') d \<or> d \<in> set (closed (net w'))"
    proof (intro allI impI)
      fix g d assume a: "d \<in> set (members (tabs w') g)"
      show "is_live (net w') d \<or> d \<in> set (closed (net w'))"
      proof (cases "d = c")
        case True
        with l show ?thesis by (simp add: n is_live_join)
      next
        case False
        with a have "d \<in> set (members (tabs w) g)" by (simp add: m split: if_splits)
        from net_okD3[OF ok this] show ?thesis by (simp add: n is_live_join closed_join)
      qed
    qed
    from 1 2 3 show ?thesis unfolding net_ok_def by blast
  qed
next
  case (Disconnect r)
  with st step_Disconnect[of c r w w' log] obtain effs where
    d: "disconnect c r (tabs w) = Inr (tabs w', effs)" and n: "net w' = transport_close c (net w)"
    by auto
  have m: "\<And>g. set (members (tabs w') g) = set (members (tabs w) g) \<or>
               set (members (tabs w') g) = set (members (tabs w) g) - {c}"
  proof (cases "jsmap_get (userSocketMap (tabs w)) c")
    case None
    fix g
    from None d disconnect_none[of "tabs w" c r]
    show "set (members (tabs w') g) = set (members (tabs w) g) \<or>
               set (members (tabs w') g) = set (members (tabs w) g) - {c}" by simp
  next
    case (Some ud)
    fix g
    from disconnect_some[OF Some, of r] d
    have "members (tabs w') g =
            (if g = ud_roomId ud then filter (\<lambda>d. d \<noteq> c) (members (tabs w) g)
             else members (tabs w) g)"
      by auto
    then show "set (members (tabs w') g) = set (members (tabs w) g) \<or>
               set (members (tabs w') g) = set (members (tabs w) g) - {c}" by auto
  qed
  have 1: "distinct (map fst (live (net w')))"
    using net_okD1[OF ok] by (simp add: n live_close distinct_map_filter)
  have 2: "\<forall>d gs g. (d, gs) \<in> set (live (net w')) \<longrightarrow>
             (g \<in> set gs) = (d \<in> set (members (tabs w') g) \<or> g = JStr d)"
  proof (intro allI impI)
    fix d gs g assume "(d, gs) \<in> set (live (net w'))"
    then have a: "(d, gs) \<in> set (live (net w))" and b: "d \<noteq> c" by (auto simp: n live_close)
    from net_okD2[OF ok a, of g] m[of g] b
    show "(g \<in> set gs) = (d \<in> set (members (tabs w') g) \<or> g = JStr d)" by blast
  qed
  have 3: "\<forall>g d. d \<in> set (members (tabs w') g) \<longrightarrow> is_live (net w') d \<or> d \<in> set (closed (net w'))"
  proof (intro allI impI)
    fix g d assume "d \<in> set (members (tabs w') g)"
    with m[of g] have "d \<in> set (members (tabs w) g)" by blast
    from net_okD3[OF ok this] show "is_live (net w') d \<or> d \<in> set (closed (net w'))"
      by (cases "d = c") (auto simp: n live_close is_live_def)
  qed
  from 1 2 3 show ?thesis unfolding net_ok_def by blast
qed (use step_quiet[OF st] net_ok_same[OF ok, of w'] in \<open>simp_all add: quiet_def\<close>)

lemma run_net_ok: "net_ok w0 \<Longrightarrow> run w0 evs = Some w \<Longrightarrow> net_ok w"
proof (induction evs arbitrary: w0)
  case Nil
  then show ?case by simp
next
  case (Cons a evs)
  obtain c ev where a: "a = (c, ev)" by (cases a)
  from Cons.prems(2) a obtain w1 log where s: "step c ev w0 = Some (w1, log)" and r: "run w1 evs = Some w"
    by (auto split: option.splits)
  from Cons.IH[OF net_ok_step[OF Cons.prems(1) s] r] show ?case .
qed

lemma net_ok_init: "net_ok init"
  by (simp add: net_ok_def init_def no_tables_def members_def jsmap_get_def)

lemma recipients_reaches:
  assumes "net_ok w"
  shows "reaches w c g (recipients (net w) c (SocketTo g e))"
proof -
  from assms have d: "distinct (map fst (live (net w)))" by (rule net_okD1)
  have 1: "distinct (recipients (net w) c (SocketTo g e))" using d by (simp add: distinct_map_filter)
  have 2: "c \<notin> set (recipients (net w) c (SocketTo g e))" by auto
  have 3: "set (recipients (net w) c (SocketTo g e)) =
           set (filter (\<lambda>d. d \<noteq> c \<and> (d \<in> set (members (tabs w) g) \<or> g = JStr d))
                  (map fst (live (net w))))"
  proof (intro set_eqI iffI)
    fix d assume "d \<in> set (recipients (net w) c (SocketTo g e))"
    then obtain gs where l: "(d, gs) \<in> set (live (net w))" and "d \<noteq> c" "g \<in> set gs" by auto
    with net_okD2[OF assms l, of g]
    show "d \<in> set (filter (\<lambda>d. d \<noteq> c \<and> (d \<in> set (members (tabs w) g) \<or> g = JStr d))
                  (map fst (live (net w))))"
      by force
  next
    fix d assume "d \<in> set (filter (\<lambda>d. d \<noteq> c \<and> (d \<in> set (members (tabs w) g) \<or> g = JStr d))
                  (map fst (live (net w))))"
    then obtain gs where l: "(d, gs) \<in> set (live (net w))" and "d \<noteq> c"
      and "d \<in> set (members (tabs w) g) \<or> g = JStr d"
      by auto
    with net_okD2[OF assms l, of g] show "d \<in> set (recipients (net w) c (SocketTo g e))" by force
  qed
  from 1 2 3 show ?thesis unfolding reaches_def by blast
qed

lemma run_snoc:
  "run w0 evs = Some w \<Longrightarrow> step c ev w = Some (w', log) \<Longrightarrow> run w0 (evs @ [(c, ev)]) = Some w'"
  by (induction evs arbitrary: w0) (auto split: option.splits)

lemma run_code_empty:
  "roomCodeMap (tabs w0) = [] \<Longrightarrow> run w0 evs = Some w \<Longrightarrow> list_all (\<lambda>x. \<not> quiet (snd x)) evs \<Longrightarrow>
   roomCodeMap (tabs w) = []"
proof (induction evs arbitrary: w0)
  case Nil
  then show ?case by simp
next
  case (Cons a evs)
  obtain c ev where a: "a = (c, ev)" by (cases a)
  from Cons.prems(2) a obtain w1 log where s: "step c ev w0 = Some (w1, log)" and r: "run w1 evs = Some w"
    by (auto split: option.splits)
  from Cons.prems(3) a have q: "\<not> quiet ev" and rest: "list_all (\<lambda>x. \<not> quiet (snd x)) evs" by auto
  have "roomCodeMap (tabs w1) = []"
  proof (cases ev)
    case Connection
    with s step_Connection[of c w0 w1 log] Cons.prems(1) show ?thesis by simp
  next
    case (Join p)
    show ?thesis
    proof (cases "truthy (get_field p ''roomId'') \<and> truthy (get_field p ''email'')")
      case False
      with s Join step_Join_fail[of c p w0 w1 log] Cons.prems(1) show ?thesis by simp
    next
      case True
      with s Join step_Join_ok[of c p w0 w1 log] Cons.prems(1) show ?thesis by simp
    qed
  next
    case (Disconnect r)
    with s step_Disconnect[of c r w0 w1 log] obtain effs where
      d: "disconnect c r (tabs w0) = Inr (tabs w1, effs)" by auto
    show ?thesis
    proof (cases "jsmap_get (userSocketMap (tabs w0)) c")
      case None
      with d disconnect_none[of "tabs w0" c r] Cons.prems(1) show ?thesis by simp
    next
      case (Some ud)
      from disconnect_some[OF Some, of r] d Cons.prems(1)
      show ?thesis by (auto simp: jsmap_delete_def)
    qed
  qed (use q in \<open>simp_all add: quiet_def\<close>)
  from Cons.IH[OF this r rest] show ?case .
qed

lemma values_jsmap_set: "v \<in> set (jsmap_values (jsmap_set m k v))"
  by (induction m) (auto simp: jsmap_values_def)

lemma values_single: "v \<in> set (jsmap_values [(k, v)])"
  by (simp add: jsmap_values_def)

lemma joined_users:
  assumes "truthy (get_field p ''roomId'')" and "truthy (get_field p ''email'')"
  shows "\<exists>t'. join c p t =
           Inr (t', [SocketJoin (get_field p ''roomId''),
                     SocketEmit (Joined (get_field p ''roomId'') (get_field p ''email'')
                                   (getRoomUsers t' (get_field p ''roomId''))
                                   (current_code t' (get_field p ''roomId''))),
                     SocketTo (get_field p ''roomId'') (UserJoined (get_field p ''email'') c)]) \<and>
           RoomUser (get_field p ''email'') c \<in> set (getRoomUsers t' (get_field p ''roomId''))"
  using assms truthy_field[OF assms(1)]
  by (auto simp: join_def Let_def jsmap_has_get jsmap_get_set getRoomUsers_def values_jsmap_set
        values_single
      split: option.splits)

lemma cursor_move_Inr:
  "cursor_move c p t = Inr (t', effs) \<Longrightarrow>
   \<not> nullish p \<and> t' = t \<and>
   effs = [SocketTo (get_field p ''roomId'') (CursorMoved (get_field p ''cursorPosition'') c)]"
  by (auto simp: cursor_move_def split: if_splits)

lemma selection_change_Inr:
  "selection_change c p t = Inr (t', effs) \<Longrightarrow>
   \<not> nullish p \<and> t' = t \<and>
   effs = [SocketTo (get_field p ''roomId'') (SelectionChanged (get_field p ''selection'') c)]"
  by (auto simp: selection_change_def split: if_splits)

lemma handle_returns:
  assumes "payload_of ev = Some p" and "\<not> nullish p"
  shows "\<exists>t' effs. handle c ev t = Inr (t', effs)"
  using assms
  by (cases ev)
     (simp_all add: join_def code_change_def cursor_move_def selection_change_def
        user_call_def call_accepted_def peer_nego_needed_def peer_nego_done_def
        screen_start_def screen_stop_def Let_def)

lemma step_exists:
  assumes "is_live (net w) c" and "ev \<noteq> Connection" and "handle c ev (tabs w) = Inr (t', effs)"
  shows "\<exists>w' log. step c ev w = Some (w', log)"
proof -
  have "admissible (net w) c ev" using assms(1,2) by (cases ev) simp_all
  with assms(3) show ?thesis by (simp add: step_def Let_def)
qed

text \<open>
  Fail-soft for every payload that is neither \<^verbatim>\<open>undefined\<close> nor \<^verbatim>\<open>null\<close>: the handler
  returns normally and the set of open connections is as before.
\<close>

lemma fail_soft:
  assumes "is_live (net w) c" and "payload_of ev = Some p" and "\<not> nullish p"
  shows "\<exists>w' log. step c ev w = Some (w', log) \<and>
           map fst (live (net w')) = map fst (live (net w)) \<and> closed (net w') = closed (net w)"
proof -
  from handle_returns[OF assms(2,3), of c "tabs w"] obtain t' effs where
    h: "handle c ev (tabs w) = Inr (t', effs)" by blast
  have ne: "ev \<noteq> Connection" using assms(2) by auto
  from step_exists[OF assms(1) ne h] obtain w' log where s: "step c ev w = Some (w', log)" by blast
  have "lifecycle c ev (net w) = net w" using assms(2) by (cases ev) simp_all
  with step_net[OF s] s show ?thesis by simp
qed

text \<open>
  Validation of a join, for every payload that is neither \<^verbatim>\<open>undefined\<close> nor \<^verbatim>\<open>null\<close>:
  with a truthy \<^verbatim>\<open>roomId\<close> and \<^verbatim>\<open>email\<close> (for strings: non-empty) the sender is registered,
  recorded in the room, put into the transport group and acknowledged; otherwise the
  tables stay as they are and the sender alone is sent the error.
\<close>

lemma join_validation:
  assumes "\<not> nullish p"
  shows "(if truthy (get_field p ''roomId'') \<and> truthy (get_field p ''email'')
          then \<exists>t'. join c p t =
                 Inr (t', [SocketJoin (get_field p ''roomId''),
                           SocketEmit (Joined (get_field p ''roomId'') (get_field p ''email'')
                                         (getRoomUsers t' (get_field p ''roomId''))
                                         (current_code t' (get_field p ''roomId''))),
                           SocketTo (get_field p ''roomId'')
                             (UserJoined (get_field p ''email'') c)]) \<and>
                 jsmap_get (userSocketMap t') c =
                   Some (UserData (get_field p ''email'') (get_field p ''roomId'')) \<and>
                 c \<in> set (members t' (get_field p ''roomId'')) \<and>
                 roomCodeMap t' = roomCodeMap t
          else join c p t =
                 Inr (t, [SocketEmit (ErrorEv (''Failed to join room: '' @ required_msg))])) \<and>
         sublist required_msg (''Failed to join room: '' @ required_msg) \<and>
         joined_ack (join c p t) =
           (truthy (get_field p ''roomId'') \<and> truthy (get_field p ''email''))"
proof (cases "truthy (get_field p ''roomId'') \<and> truthy (get_field p ''email'')")
  case True
  from True join_ok[of p c t] obtain t' where
    j: "join c p t =
           Inr (t', [SocketJoin (get_field p ''roomId''),
                     SocketEmit (Joined (get_field p ''roomId'') (get_field p ''email'')
                                   (getRoomUsers t' (get_field p ''roomId''))
                                   (current_code t' (get_field p ''roomId''))),
                     SocketTo (get_field p ''roomId'') (UserJoined (get_field p ''email'') c)])"
    and u: "userSocketMap t' = jsmap_set (userSocketMap t) c
                                (UserData (get_field p ''email'') (get_field p ''roomId''))"
    and k: "roomCodeMap t' = roomCodeMap t"
    and m: "\<forall>g. set (members t' g) = (if g = get_field p ''roomId''
                                then insert c (set (members t g)) else set (members t g))"
    by blast
  have a: "jsmap_get (userSocketMap t') c =
             Some (UserData (get_field p ''email'') (get_field p ''roomId''))"
    by (simp add: u jsmap_get_set)
  have b: "c \<in> set (members t' (get_field p ''roomId''))" using m by simp
  have s: "sublist required_msg (''Failed to join room: '' @ required_msg)"
    using sublist_appendI[of required_msg "''Failed to join room: ''" "[]"] by simp
  have ack: "joined_ack (join c p t)" by (simp add: j joined_ack_def)
  from True j a b k s ack show ?thesis by auto
next
  case False
  have s: "sublist required_msg (''Failed to join room: '' @ required_msg)"
    using sublist_appendI[of required_msg "''Failed to join room: ''" "[]"] by simp
  from join_fail[OF assms False, of c t] False s show ?thesis
    by (simp add: joined_ack_def)
qed

text \<open>A connection that has gone sends nothing more, and its records stay where they are.\<close>

lemma gone_step:
  assumes "c0 \<in> set (closed (net w))" and "\<not> is_live (net w) c0"
    and "step c ev w = Some (w', log)"
  shows "c \<noteq> c0 \<and> c0 \<in> set (closed (net w')) \<and> \<not> is_live (net w') c0"
proof -
  from step_SomeD[OF assms(3)] have ad: "admissible (net w) c ev" by simp
  have ne: "c \<noteq> c0" using ad assms(1,2) by (cases ev) auto
  have "set (map fst (live (lifecycle c ev (net w)))) \<subseteq> insert c (set (map fst (live (net w))))"
    by (cases ev) (auto simp: live_open live_close)
  then have "set (map fst (live (net w'))) \<subseteq> insert c (set (map fst (live (net w))))"
    unfolding conjunct1[OF step_net[OF assms(3)]] .
  with ne assms(2) have l: "\<not> is_live (net w') c0"
    unfolding is_live_def by blast
  have "set (closed (net w)) \<subseteq> set (closed (lifecycle c ev (net w)))"
    by (cases ev) (auto simp: live_open live_close)
  with assms(1) step_net[OF assms(3)] have "c0 \<in> set (closed (net w'))" by auto
  with ne l show ?thesis by simp
qed

lemma others_keep:
  assumes "step d ev w = Some (w', log)" and "d \<noteq> c"
  shows "jsmap_get (userSocketMap (tabs w')) c = jsmap_get (userSocketMap (tabs w)) c \<and>
         (\<forall>g. c \<in> set (members (tabs w) g) \<longrightarrow> c \<in> set (members (tabs w') g))"
proof (cases ev)
  case Connection
  with assms step_Connection[of d w w' log] show ?thesis by simp
next
  case (Join p)
  show ?thesis
  proof (cases "truthy (get_field p ''roomId'') \<and> truthy (get_field p ''email'')")
    case False
    with assms Join step_Join_fail[of d p w w' log] show ?thesis by simp
  next
    case True
    with assms Join step_Join_ok[of d p w w' log] show ?thesis
      by (auto simp: jsmap_get_set)
  qed
next
  case (Disconnect r)
  with assms step_Disconnect[of d r w w' log] obtain effs where
    dd: "disconnect d r (tabs w) = Inr (tabs w', effs)" by auto
  show ?thesis
  proof (cases "jsmap_get (userSocketMap (tabs w)) d")
    case None
    with dd disconnect_none[of "tabs w" d r] show ?thesis by simp
  next
    case (Some ud)
    from disconnect_some[OF Some, of r] dd assms(2) show ?thesis
      by (auto simp: jsmap_get_delete)
  qed
qed (use assms step_quiet[of d ev w w' log] in \<open>auto simp: quiet_def members_def\<close>)

lemma own_keep:
  assumes "step c ev w = Some (w', log)" and "\<forall>r. ev \<noteq> Disconnect r"
    and "stays_in_room (tabs w) c ev" and "jsmap_get (userSocketMap (tabs w)) c = Some ud"
  shows "(\<exists>ud'. jsmap_get (userSocketMap (tabs w')) c = Some ud' \<and> ud_roomId ud' = ud_roomId ud) \<and>
         (\<forall>g. c \<in> set (members (tabs w) g) \<longrightarrow> c \<in> set (members (tabs w') g))"
proof (cases ev)
  case Connection
  with assms step_Connection[of c w w' log] show ?thesis by simp
next
  case (Join p)
  show ?thesis
  proof (cases "truthy (get_field p ''roomId'') \<and> truthy (get_field p ''email'')")
    case False
    with assms Join step_Join_fail[of c p w w' log] show ?thesis by simp
  next
    case True
    with assms(3,4) Join have "get_field p ''roomId'' = ud_roomId ud"
      by (simp add: stays_in_room_def)
    with True assms(1) Join step_Join_ok[of c p w w' log] show ?thesis
      by (auto simp: jsmap_get_set)
  qed
next
  case (Disconnect r)
  with assms(2) show ?thesis by simp
qed (use assms step_quiet[of c ev w w' log] in \<open>auto simp: quiet_def members_def\<close>)

lemma gone_run:
  assumes "run w evs = Some w'" and "c \<in> set (closed (net w))" and "\<not> is_live (net w) c"
  shows "\<not> is_live (net w') c \<and>
         (\<forall>g. c \<in> set (members (tabs w) g) \<longrightarrow> c \<in> set (members (tabs w') g))"
  using assms
proof (induction evs arbitrary: w)
  case Nil
  then show ?case by simp
next
  case (Cons a evs)
  obtain d ev where a: "a = (d, ev)" by (cases a)
  from Cons.prems(1) a obtain w1 log where s: "step d ev w = Some (w1, log)"
    and r: "run w1 evs = Some w'"
    by (auto split: option.splits)
  from gone_step[OF Cons.prems(2,3) s] have ne: "d \<noteq> c" and c1: "c \<in> set (closed (net w1))"
    and l1: "\<not> is_live (net w1) c" by auto
  from Cons.IH[OF r c1 l1] others_keep[OF s ne] show ?case by blast
qed

lemma stay_run:
  assumes "run w1 evs = Some w2" and "own_room_run c w1 evs" and "is_live (net w2) c"
    and "\<exists>ud. jsmap_get (userSocketMap (tabs w1)) c = Some ud \<and> ud_roomId ud = r2"
    and "c \<in> set (members (tabs w1) r1)"
  shows "(\<exists>ud. jsmap_get (userSocketMap (tabs w2)) c = Some ud \<and> ud_roomId ud = r2) \<and>
         c \<in> set (members (tabs w2) r1)"
  using assms
proof (induction evs arbitrary: w1)
  case Nil
  then show ?case by simp
next
  case (Cons a evs)
  obtain d ev where a: "a = (d, ev)" by (cases a)
  from Cons.prems(1) a obtain wm log where s: "step d ev w1 = Some (wm, log)"
    and r: "run wm evs = Some w2"
    by (auto split: option.splits)
  from Cons.prems(2) a s have g: "d \<noteq> c \<or> stays_in_room (tabs w1) c ev"
    and o: "own_room_run c wm evs" by auto
  have keep: "(\<exists>ud. jsmap_get (userSocketMap (tabs wm)) c = Some ud \<and> ud_roomId ud = r2) \<and>
              c \<in> set (members (tabs wm) r1)"
  proof (cases "d = c")
    case False
    from others_keep[OF s False] Cons.prems(4,5) show ?thesis by auto
  next
    case True
    have nd: "\<forall>rs. ev \<noteq> Disconnect rs"
    proof (intro allI notI)
      fix rs assume "ev = Disconnect rs"
      with s True step_Disconnect[of c rs w1 wm log]
      have "net wm = transport_close c (net w1)" by simp
      then have "c \<in> set (closed (net wm))" and "\<not> is_live (net wm) c"
        by (auto simp: live_close is_live_def)
      from gone_run[OF r this] Cons.prems(3) show False by simp
    qed
    from Cons.prems(4) obtain ud where u: "jsmap_get (userSocketMap (tabs w1)) c = Some ud"
      and ur: "ud_roomId ud = r2" by blast
    from g True have st: "stays_in_room (tabs w1) c ev" by simp
    from own_keep[OF s[unfolded True] nd st u] ur Cons.prems(5) show ?thesis by auto
  qed
  from Cons.IH[OF r o Cons.prems(3)] keep show ?case by blast
qed


section \<open>Join validation\<close>

text \<open>
  Claim C3 (the code departs from it). The claim: every join succeeds exactly when
  \<^verbatim>\<open>roomId\<close> and \<^verbatim>\<open>email\<close> are both non-empty, and otherwise the sender receives an
  \<^verbatim>\<open>error\<close> event containing "Room ID and email are required" and no table changes. For
  every payload that is neither \<^verbatim>\<open>undefined\<close> nor \<^verbatim>\<open>null\<close> this holds (lemma
  \<open>join_validation\<close>). A join sent without a payload has neither field, yet the sender is
  sent nothing: the destructuring in the handler's parameter list throws before the
  \<^verbatim>\<open>try\<close> is entered, the exception leaves the handler and the run ends.
\<close>

theorem join_without_payload:
  "join c (PValue JUndefined) t = Inl TypeError \<and>
   join c (PValue JNull) t = Inl TypeError \<and>
   step c (Join (PValue JUndefined)) w = None \<and>
   step c (Join (PValue JNull)) w = None"
  by (simp add: join_def step_def)

theorem join_without_payload_witness:
  "join ''a'' (PValue JUndefined) no_tables = Inl TypeError \<and>
   join ''a'' (PValue JNull) no_tables = Inl TypeError \<and>
   step ''a'' (Join (PValue JUndefined))
        \<lparr>tabs = no_tables, net = \<lparr>live = [(''a'', [JStr ''a''])], closed = []\<rparr>\<rparr> = None \<and>
   step ''a'' (Join (PValue JNull))
        \<lparr>tabs = no_tables, net = \<lparr>live = [(''a'', [JStr ''a''])], closed = []\<rparr>\<rparr> = None"
  by (rule join_without_payload[of "''a''" no_tables
        "\<lparr>tabs = no_tables, net = \<lparr>live = [(''a'', [JStr ''a''])], closed = []\<rparr>\<rparr>"])

section \<open>Disconnect without a join record\<close>

text \<open>
  Claim C6. A disconnect of a connection that has no entry in \<^verbatim>\<open>userSocketMap\<close> returns
  normally, leaves the three tables as they are and makes no transport command, so
  nothing is broadcast.
\<close>

theorem disconnect_unjoined:
  assumes "jsmap_get (userSocketMap (tabs w)) c = None" and "is_live (net w) c"
  shows "disconnect c reason (tabs w) = Inr (tabs w, []) \<and>
         (\<exists>w'. step c (Disconnect reason) w = Some (w', []) \<and> tabs w' = tabs w)"
  using assms by (simp add: disconnect_def step_def)

theorem disconnect_unjoined_witness:
  "jsmap_get (userSocketMap (tabs \<lparr>tabs = no_tables, net = \<lparr>live = [(''a'', [])], closed = []\<rparr>\<rparr>)) ''a'' = None \<and>
   is_live (net \<lparr>tabs = no_tables, net = \<lparr>live = [(''a'', [])], closed = []\<rparr>\<rparr>) ''a'' \<and>
   disconnect ''a'' (JStr ''transport close'') no_tables = Inr (no_tables, [])"
proof -
  have h1: "jsmap_get (userSocketMap (tabs \<lparr>tabs = no_tables, net = \<lparr>live = [(''a'', [])], closed = []\<rparr>\<rparr>)) ''a'' = None"
    by (simp add: no_tables_def jsmap_get_def)
  have h2: "is_live (net \<lparr>tabs = no_tables, net = \<lparr>live = [(''a'', [])], closed = []\<rparr>\<rparr>) ''a''"
    by (simp add: is_live_def)
  from disconnect_unjoined[OF h1 h2, of "JStr ''transport close''"] h1 h2 show ?thesis
    by simp
qed

section \<open>Writes of the shared document\<close>

text \<open>
  Claim C8. \<^verbatim>\<open>code-change\<close> is last-writer-wins: of two code-change events for the same
  \<^verbatim>\<open>roomId\<close>, processed one after the other and sent by any connections, the second one's
  content is what \<^verbatim>\<open>roomCodeMap\<close> holds for that room afterwards.
\<close>

theorem last_writer_wins:
  assumes "\<not> nullish p1" and "\<not> nullish p2"
    and "get_field p1 ''roomId'' = rid" and "get_field p2 ''roomId'' = rid"
  shows "\<exists>t1 e1 t2 e2.
           code_change c1 p1 t = Inr (t1, e1) \<and> code_change c2 p2 t1 = Inr (t2, e2) \<and>
           jsmap_get (roomCodeMap t2) rid = Some (get_field p2 ''code'')"
  using assms by (simp add: code_change_def Let_def jsmap_get_set)

theorem last_writer_wins_witness:
  "\<not> nullish (PObject [(''roomId'', JStr ''r1''), (''code'', JStr ''X'')]) \<and>
   \<not> nullish (PObject [(''roomId'', JStr ''r1''), (''code'', JStr ''Y'')]) \<and>
   (\<exists>t1 e1 t2 e2.
      code_change ''a'' (PObject [(''roomId'', JStr ''r1''), (''code'', JStr ''X'')]) no_tables = Inr (t1, e1) \<and>
      code_change ''b'' (PObject [(''roomId'', JStr ''r1''), (''code'', JStr ''Y'')]) t1 = Inr (t2, e2) \<and>
      jsmap_get (roomCodeMap t2) (JStr ''r1'') = Some (JStr ''Y''))"
proof -
  have h1: "\<not> nullish (PObject [(''roomId'', JStr ''r1''), (''code'', JStr ''X'')])" by simp
  have h2: "\<not> nullish (PObject [(''roomId'', JStr ''r1''), (''code'', JStr ''Y'')])" by simp
  have h3: "get_field (PObject [(''roomId'', JStr ''r1''), (''code'', JStr ''X'')]) ''roomId'' = JStr ''r1''"
    by simp
  have h4: "get_field (PObject [(''roomId'', JStr ''r1''), (''code'', JStr ''Y'')]) ''roomId'' = JStr ''r1''"
    by simp
  have v: "get_field (PObject [(''roomId'', JStr ''r1''), (''code'', JStr ''Y'')]) ''code'' = JStr ''Y''"
    by simp
  from last_writer_wins[OF h1 h2 h3 h4, of "''a''" no_tables "''b''"] h1 h2 show ?thesis
    unfolding v by blast
qed

text \<open>
  Claim C10. A code-change event stores its content under its \<^verbatim>\<open>roomId\<close> whatever the
  tables hold: the handler looks up neither the sender in \<^verbatim>\<open>userSocketMap\<close> nor the room
  in \<^verbatim>\<open>activeRooms\<close>.
\<close>

theorem code_change_unconditional:
  assumes "\<not> nullish p"
  shows "\<exists>t' effs. code_change c p t = Inr (t', effs) \<and>
           jsmap_get (roomCodeMap t') (get_field p ''roomId'') = Some (get_field p ''code'')"
  using assms by (simp add: code_change_def Let_def jsmap_get_set)

theorem code_change_unconditional_witness:
  "\<not> nullish (PObject [(''roomId'', JStr ''nowhere''), (''code'', JStr ''X'')]) \<and>
   jsmap_get (userSocketMap no_tables) ''a'' = None \<and>
   jsmap_get (activeRooms no_tables) (JStr ''nowhere'') = None \<and>
   (\<exists>t' effs.
      code_change ''a'' (PObject [(''roomId'', JStr ''nowhere''), (''code'', JStr ''X'')]) no_tables = Inr (t', effs) \<and>
      jsmap_get (roomCodeMap t') (JStr ''nowhere'') = Some (JStr ''X''))"
proof -
  have h: "\<not> nullish (PObject [(''roomId'', JStr ''nowhere''), (''code'', JStr ''X'')])" by simp
  have v: "get_field (PObject [(''roomId'', JStr ''nowhere''), (''code'', JStr ''X'')]) ''roomId'' = JStr ''nowhere''"
    "get_field (PObject [(''roomId'', JStr ''nowhere''), (''code'', JStr ''X'')]) ''code'' = JStr ''X''"
    by simp_all
  have e: "jsmap_get (userSocketMap no_tables) ''a'' = None"
    "jsmap_get (activeRooms no_tables) (JStr ''nowhere'') = None"
    by (simp_all add: no_tables_def jsmap_get_def)
  from code_change_unconditional[OF h, of "''a''" no_tables] h e show ?thesis
    unfolding v by blast
qed

section \<open>Room membership of a connection\<close>

text \<open>
  Claim C2 says that a connection is in at most one room's member set in every reachable
  state. The join handler never removes the sender from a room it joined before, so a
  connection that joins two rooms is recorded in both.
\<close>

theorem membership_counterexample:
  "map_option (activeRooms \<circ> tabs)
     (run init [(''a'', Connection),
                (''a'', Join (PObject [(''roomId'', JStr ''r1''), (''email'', JStr ''a@x.com'')])),
                (''a'', Join (PObject [(''roomId'', JStr ''r2''), (''email'', JStr ''a@x.com'')]))])
   = Some [(JStr ''r1'', [(''a'', RoomUser (JStr ''a@x.com'') ''a'')]),
           (JStr ''r2'', [(''a'', RoomUser (JStr ''a@x.com'') ''a'')])]"
  by code_simp

text \<open>
  Claim C2, amended. A connection that makes no valid join for a room other than the one
  it is registered in is, in every reachable state, in at most one room's member set,
  whatever the other connections do.
\<close>

theorem one_room_per_connection:
  assumes "run init evs = Some w" and "own_room_run c init evs"
    and "c \<in> set (members (tabs w) r1)" and "c \<in> set (members (tabs w) r2)"
  shows "r1 = r2"
proof -
  have inv: "registered c (tabs w)"
    by (rule run_registered[OF registered_init assms(1,2)])
  from registeredD[OF inv assms(3)] registeredD[OF inv assms(4)] show ?thesis by auto
qed

theorem one_room_per_connection_witness:
  "run init [(''d'', Connection),
             (''d'', Join (PObject [(''roomId'', JStr ''r1''), (''email'', JStr ''d@x.com'')])),
             (''d'', Join (PObject [(''roomId'', JStr ''r2''), (''email'', JStr ''d@x.com'')])),
             (''a'', Connection),
             (''a'', Join (PObject [(''roomId'', JStr ''r1''), (''email'', JStr ''a@x.com'')]))]
     = Some \<lparr>tabs = \<lparr>userSocketMap = [(''d'', UserData (JStr ''d@x.com'') (JStr ''r2'')),
                                       (''a'', UserData (JStr ''a@x.com'') (JStr ''r1''))],
                      roomCodeMap = [],
                      activeRooms = [(JStr ''r1'', [(''d'', RoomUser (JStr ''d@x.com'') ''d''),
                                                    (''a'', RoomUser (JStr ''a@x.com'') ''a'')]),
                                     (JStr ''r2'', [(''d'', RoomUser (JStr ''d@x.com'') ''d'')])]\<rparr>,
              net = \<lparr>live = [(''d'', [JStr ''r2'', JStr ''r1'', JStr ''d'']),
                             (''a'', [JStr ''r1'', JStr ''a''])],
                      closed = []\<rparr>\<rparr> \<and>
   own_room_run ''a'' init
            [(''d'', Connection),
             (''d'', Join (PObject [(''roomId'', JStr ''r1''), (''email'', JStr ''d@x.com'')])),
             (''d'', Join (PObject [(''roomId'', JStr ''r2''), (''email'', JStr ''d@x.com'')])),
             (''a'', Connection),
             (''a'', Join (PObject [(''roomId'', JStr ''r1''), (''email'', JStr ''a@x.com'')]))] \<and>
   ''a'' \<in> set (members
                 \<lparr>userSocketMap = [(''d'', UserData (JStr ''d@x.com'') (JStr ''r2'')),
                                   (''a'', UserData (JStr ''a@x.com'') (JStr ''r1''))],
                   roomCodeMap = [],
                   activeRooms = [(JStr ''r1'', [(''d'', RoomUser (JStr ''d@x.com'') ''d''),
                                                 (''a'', RoomUser (JStr ''a@x.com'') ''a'')]),
                                  (JStr ''r2'', [(''d'', RoomUser (JStr ''d@x.com'') ''d'')])]\<rparr>
                 (JStr ''r1'')) \<and>
   JStr ''r1'' = JStr ''r1''"
proof -
  let ?E = "[(''d'', Connection),
             (''d'', Join (PObject [(''roomId'', JStr ''r1''), (''email'', JStr ''d@x.com'')])),
             (''d'', Join (PObject [(''roomId'', JStr ''r2''), (''email'', JStr ''d@x.com'')])),
             (''a'', Connection),
             (''a'', Join (PObject [(''roomId'', JStr ''r1''), (''email'', JStr ''a@x.com'')]))]"
  let ?T = "\<lparr>userSocketMap = [(''d'', UserData (JStr ''d@x.com'') (JStr ''r2'')),
                                   (''a'', UserData (JStr ''a@x.com'') (JStr ''r1''))],
                   roomCodeMap = [],
                   activeRooms = [(JStr ''r1'', [(''d'', RoomUser (JStr ''d@x.com'') ''d''),
                                                 (''a'', RoomUser (JStr ''a@x.com'') ''a'')]),
                                  (JStr ''r2'', [(''d'', RoomUser (JStr ''d@x.com'') ''d'')])]\<rparr>"
  let ?W = "\<lparr>tabs = ?T,
             net = \<lparr>live = [(''d'', [JStr ''r2'', JStr ''r1'', JStr ''d'']),
                            (''a'', [JStr ''r1'', JStr ''a''])],
                     closed = []\<rparr>\<rparr>"
  have h1: "run init ?E = Some ?W" by code_simp
  have h2: "own_room_run ''a'' init ?E" by code_simp
  have h3: "''a'' \<in> set (members (tabs ?W) (JStr ''r1''))" by code_simp
  from one_room_per_connection[OF h1 h2 h3 h3] h1 h2 h3 show ?thesis by simp
qed

section \<open>Recipients of a broadcast\<close>

text \<open>
  Claim C7 says that a broadcast from \<open>S\<close> in room \<open>R\<close> reaches exactly the current members
  of \<open>R\<close> other than \<open>S\<close>. Two runs show otherwise. A connection \<open>d\<close> that joined \<open>r1\<close> and
  then \<open>r2\<close> keeps its record in \<open>r1\<close> after it has disconnected, and a broadcast to \<open>r1\<close>
  cannot reach it. And a room named like the identity of a connection \<open>b\<close> shares its
  transport group with \<open>b\<close>: a broadcast to that room reaches \<open>b\<close>, who is no member.
\<close>

theorem broadcast_counterexample:
  "map_option (activeRooms \<circ> tabs)
     (run init [(''d'', Connection),
                (''d'', Join (PObject [(''roomId'', JStr ''r1''), (''email'', JStr ''d@x.com'')])),
                (''d'', Join (PObject [(''roomId'', JStr ''r2''), (''email'', JStr ''d@x.com'')])),
                (''a'', Connection),
                (''a'', Join (PObject [(''roomId'', JStr ''r1''), (''email'', JStr ''a@x.com'')])),
                (''d'', Disconnect (JStr ''transport close''))])
   = Some [(JStr ''r1'', [(''d'', RoomUser (JStr ''d@x.com'') ''d''),
                          (''a'', RoomUser (JStr ''a@x.com'') ''a'')])] \<and>
   map_option snd
     (Option.bind
        (run init [(''d'', Connection),
                   (''d'', Join (PObject [(''roomId'', JStr ''r1''), (''email'', JStr ''d@x.com'')])),
                   (''d'', Join (PObject [(''roomId'', JStr ''r2''), (''email'', JStr ''d@x.com'')])),
                   (''a'', Connection),
                   (''a'', Join (PObject [(''roomId'', JStr ''r1''), (''email'', JStr ''a@x.com'')])),
                   (''d'', Disconnect (JStr ''transport close''))])
        (step ''a'' (CodeChange (PObject [(''roomId'', JStr ''r1''), (''code'', JStr ''X'')]))))
   = Some [(SocketTo (JStr ''r1'') (CodeChanged (JStr ''X'') JUndefined ''a''), [])] \<and>
   map_option (activeRooms \<circ> tabs)
     (run init [(''a'', Connection), (''b'', Connection), (''c'', Connection),
                (''a'', Join (PObject [(''roomId'', JStr ''b''), (''email'', JStr ''a@x.com'')])),
                (''c'', Join (PObject [(''roomId'', JStr ''b''), (''email'', JStr ''c@x.com'')]))])
   = Some [(JStr ''b'', [(''a'', RoomUser (JStr ''a@x.com'') ''a''),
                         (''c'', RoomUser (JStr ''c@x.com'') ''c'')])] \<and>
   map_option snd
     (Option.bind
        (run init [(''a'', Connection), (''b'', Connection), (''c'', Connection),
                   (''a'', Join (PObject [(''roomId'', JStr ''b''), (''email'', JStr ''a@x.com'')])),
                   (''c'', Join (PObject [(''roomId'', JStr ''b''), (''email'', JStr ''c@x.com'')]))])
        (step ''a'' (CodeChange (PObject [(''roomId'', JStr ''b''), (''code'', JStr ''X'')]))))
   = Some [(SocketTo (JStr ''b'') (CodeChanged (JStr ''X'') JUndefined ''a''), [''b'', ''c''])]"
  by code_simp

text \<open>
  Claim C7, amended. In every step from a reachable state, each of the events join (when
  valid), code-change, cursor-move, selection-change and disconnect (of a registered
  connection) makes exactly one \<^verbatim>\<open>socket.to(R).emit\<close>, for its room \<open>R\<close> and with its own
  notice (\<^verbatim>\<open>user:joined\<close>, \<^verbatim>\<open>code-changed\<close>, \<^verbatim>\<open>cursor-moved\<close>, \<^verbatim>\<open>selection-changed\<close>,
  \<^verbatim>\<open>user:disconnected\<close>). It is delivered once to every connection other than the sender
  that is still open and is a recorded member of \<open>R\<close> or has \<open>R\<close> as its own identity, and
  to nobody else; the sender gets no copy. The log of the step is given in full: apart
  from that broadcast a valid join makes the transport join and the acknowledgment to
  the sender, and an invalid join only the error to the sender.
\<close>

theorem broadcast_recipients:
  assumes "run init evs = Some w" and "step c ev w = Some (w', log)"
  shows "case ev of
           Join p \<Rightarrow>
             (if truthy (get_field p ''roomId'') \<and> truthy (get_field p ''email'')
              then \<exists>rs. log =
                     [(SocketJoin (get_field p ''roomId''), []),
                      (SocketEmit (Joined (get_field p ''roomId'') (get_field p ''email'')
                                     (getRoomUsers (tabs w') (get_field p ''roomId''))
                                     (current_code (tabs w') (get_field p ''roomId''))), [c]),
                      (SocketTo (get_field p ''roomId'') (UserJoined (get_field p ''email'') c), rs)] \<and>
                     reaches w' c (get_field p ''roomId'') rs
              else log = [(SocketEmit (ErrorEv (''Failed to join room: '' @ required_msg)), [c])])
         | CodeChange p \<Rightarrow>
             (\<exists>rs. log = [(SocketTo (get_field p ''roomId'')
                              (CodeChanged (get_field p ''code'') (get_field p ''cursorPosition'') c),
                            rs)] \<and>
                    reaches w' c (get_field p ''roomId'') rs)
         | CursorMove p \<Rightarrow>
             (\<exists>rs. log = [(SocketTo (get_field p ''roomId'')
                              (CursorMoved (get_field p ''cursorPosition'') c), rs)] \<and>
                    reaches w' c (get_field p ''roomId'') rs)
         | SelectionChange p \<Rightarrow>
             (\<exists>rs. log = [(SocketTo (get_field p ''roomId'')
                              (SelectionChanged (get_field p ''selection'') c), rs)] \<and>
                    reaches w' c (get_field p ''roomId'') rs)
         | Disconnect reason \<Rightarrow>
             (case jsmap_get (userSocketMap (tabs w)) c of
                None \<Rightarrow> log = []
              | Some ud \<Rightarrow>
                  (\<exists>rs. log = [(SocketTo (ud_roomId ud) (UserDisconnected c (ud_email ud)), rs)] \<and>
                         reaches w' c (ud_roomId ud) rs))
         | _ \<Rightarrow> True"
proof -
  have ok: "net_ok w'"
    by (rule net_ok_step[OF run_net_ok[OF net_ok_init assms(1)] assms(2)])
  have rec: "recorded (tabs w)" by (rule run_recorded[OF recorded_init assms(1)])
  note rr = recipients_reaches[OF ok]
  show ?thesis
  proof (cases ev)
    case (Join p)
    show ?thesis
    proof (cases "truthy (get_field p ''roomId'') \<and> truthy (get_field p ''email'')")
      case True
      with assms(2) Join step_Join_ok[of c p w w' log]
      have "log = [(SocketJoin (get_field p ''roomId''), []),
                (SocketEmit (Joined (get_field p ''roomId'') (get_field p ''email'')
                               (getRoomUsers (tabs w') (get_field p ''roomId''))
                               (current_code (tabs w') (get_field p ''roomId''))), [c]),
                (SocketTo (get_field p ''roomId'') (UserJoined (get_field p ''email'') c),
                 recipients (net w') c
                   (SocketTo (get_field p ''roomId'') (UserJoined (get_field p ''email'') c)))]"
        by simp
      with True Join rr show ?thesis by auto
    next
      case False
      with assms(2) Join step_Join_fail[of c p w w' log] show ?thesis by simp
    qed
  next
    case (CodeChange p)
    with assms(2) have s: "step c (CodeChange p) w = Some (w', log)" by simp
    from step_quiet[OF s] obtain effs where n: "net w' = net w"
      and h: "code_change c p (tabs w) = Inr (tabs w', effs)"
      and l: "log = map (\<lambda>e. (e, recipients (net w) c e)) effs"
      by (auto simp: quiet_def)
    from code_change_Inr[OF h] l n
    have "log = [(SocketTo (get_field p ''roomId'')
                    (CodeChanged (get_field p ''code'') (get_field p ''cursorPosition'') c),
                  recipients (net w') c
                    (SocketTo (get_field p ''roomId'')
                       (CodeChanged (get_field p ''code'') (get_field p ''cursorPosition'') c)))]"
      by simp
    with CodeChange rr show ?thesis by auto
  next
    case (CursorMove p)
    with assms(2) have s: "step c (CursorMove p) w = Some (w', log)" by simp
    from step_quiet[OF s] obtain effs where n: "net w' = net w"
      and h: "cursor_move c p (tabs w) = Inr (tabs w', effs)"
      and l: "log = map (\<lambda>e. (e, recipients (net w) c e)) effs"
      by (auto simp: quiet_def)
    from cursor_move_Inr[OF h] l n
    have "log = [(SocketTo (get_field p ''roomId'') (CursorMoved (get_field p ''cursorPosition'') c),
                  recipients (net w') c
                    (SocketTo (get_field p ''roomId'')
                       (CursorMoved (get_field p ''cursorPosition'') c)))]"
      by simp
    with CursorMove rr show ?thesis by auto
  next
    case (SelectionChange p)
    with assms(2) have s: "step c (SelectionChange p) w = Some (w', log)" by simp
    from step_quiet[OF s] obtain effs where n: "net w' = net w"
      and h: "selection_change c p (tabs w) = Inr (tabs w', effs)"
      and l: "log = map (\<lambda>e. (e, recipients (net w) c e)) effs"
      by (auto simp: quiet_def)
    from selection_change_Inr[OF h] l n
    have "log = [(SocketTo (get_field p ''roomId'') (SelectionChanged (get_field p ''selection'') c),
                  recipients (net w') c
                    (SocketTo (get_field p ''roomId'')
                       (SelectionChanged (get_field p ''selection'') c)))]"
      by simp
    with SelectionChange rr show ?thesis by auto
  next
    case (Disconnect r)
    with assms(2) step_Disconnect[of c r w w' log] obtain effs where
      d: "disconnect c r (tabs w) = Inr (tabs w', effs)"
      and l: "log = map (\<lambda>e. (e, recipients (net w') c e)) effs"
      by auto
    show ?thesis
    proof (cases "jsmap_get (userSocketMap (tabs w)) c")
      case None
      with d l disconnect_none[of "tabs w" c r] Disconnect show ?thesis by simp
    next
      case (Some ud)
      with rec have "c \<in> set (members (tabs w) (ud_roomId ud))" by (simp add: recorded_def)
      then have "members (tabs w) (ud_roomId ud) \<noteq> []" by auto
      then have ex: "jsmap_get (activeRooms (tabs w)) (ud_roomId ud) \<noteq> None"
        by (auto simp: members_nonempty_iff)
      from disconnect_some[OF Some, of r] d ex
      have "effs = [SocketTo (ud_roomId ud) (UserDisconnected c (ud_email ud))]" by auto
      with l Some Disconnect rr show ?thesis by auto
    qed
  qed simp_all
qed

theorem broadcast_recipients_witness:
  "run init [(''a'', Connection),
             (''a'', Join (PObject [(''roomId'', JStr ''r1''), (''email'', JStr ''a@x.com'')])),
             (''b'', Connection)]
     = Some \<lparr>tabs = \<lparr>userSocketMap = [(''a'', UserData (JStr ''a@x.com'') (JStr ''r1''))],
                      roomCodeMap = [],
                      activeRooms = [(JStr ''r1'', [(''a'', RoomUser (JStr ''a@x.com'') ''a'')])]\<rparr>,
              net = \<lparr>live = [(''a'', [JStr ''r1'', JStr ''a'']), (''b'', [JStr ''b''])],
                      closed = []\<rparr>\<rparr> \<and>
   step ''b'' (Join (PObject [(''roomId'', JStr ''r1''), (''email'', JStr ''b@x.com'')]))
        \<lparr>tabs = \<lparr>userSocketMap = [(''a'', UserData (JStr ''a@x.com'') (JStr ''r1''))],
                  roomCodeMap = [],
                  activeRooms = [(JStr ''r1'', [(''a'', RoomUser (JStr ''a@x.com'') ''a'')])]\<rparr>,
          net = \<lparr>live = [(''a'', [JStr ''r1'', JStr ''a'']), (''b'', [JStr ''b''])],
                  closed = []\<rparr>\<rparr>
     = Some (\<lparr>tabs = \<lparr>userSocketMap = [(''a'', UserData (JStr ''a@x.com'') (JStr ''r1'')),
                                        (''b'', UserData (JStr ''b@x.com'') (JStr ''r1''))],
                       roomCodeMap = [],
                       activeRooms = [(JStr ''r1'', [(''a'', RoomUser (JStr ''a@x.com'') ''a''),
                                                     (''b'', RoomUser (JStr ''b@x.com'') ''b'')])]\<rparr>,
               net = \<lparr>live = [(''a'', [JStr ''r1'', JStr ''a'']),
                              (''b'', [JStr ''r1'', JStr ''b''])],
                       closed = []\<rparr>\<rparr>,
             [(SocketJoin (JStr ''r1''), []),
              (SocketEmit (Joined (JStr ''r1'') (JStr ''b@x.com'')
                             [RoomUser (JStr ''a@x.com'') ''a'', RoomUser (JStr ''b@x.com'') ''b'']
                             (JStr ''// Start coding here...'')), [''b'']),
              (SocketTo (JStr ''r1'') (UserJoined (JStr ''b@x.com'') ''b''), [''a''])]) \<and>
   reaches \<lparr>tabs = \<lparr>userSocketMap = [(''a'', UserData (JStr ''a@x.com'') (JStr ''r1'')),
                                      (''b'', UserData (JStr ''b@x.com'') (JStr ''r1''))],
                     roomCodeMap = [],
                     activeRooms = [(JStr ''r1'', [(''a'', RoomUser (JStr ''a@x.com'') ''a''),
                                                   (''b'', RoomUser (JStr ''b@x.com'') ''b'')])]\<rparr>,
             net = \<lparr>live = [(''a'', [JStr ''r1'', JStr ''a'']),
                            (''b'', [JStr ''r1'', JStr ''b''])],
                     closed = []\<rparr>\<rparr>
           ''b'' (JStr ''r1'') [''a'']"
proof -
  let ?E = "[(''a'', Connection),
             (''a'', Join (PObject [(''roomId'', JStr ''r1''), (''email'', JStr ''a@x.com'')])),
             (''b'', Connection)]"
  let ?P = "PObject [(''roomId'', JStr ''r1''), (''email'', JStr ''b@x.com'')]"
  let ?W = "\<lparr>tabs = \<lparr>userSocketMap = [(''a'', UserData (JStr ''a@x.com'') (JStr ''r1''))],
                  roomCodeMap = [],
                  activeRooms = [(JStr ''r1'', [(''a'', RoomUser (JStr ''a@x.com'') ''a'')])]\<rparr>,
          net = \<lparr>live = [(''a'', [JStr ''r1'', JStr ''a'']), (''b'', [JStr ''b''])],
                  closed = []\<rparr>\<rparr>"
  let ?W' = "\<lparr>tabs = \<lparr>userSocketMap = [(''a'', UserData (JStr ''a@x.com'') (JStr ''r1'')),
                                        (''b'', UserData (JStr ''b@x.com'') (JStr ''r1''))],
                       roomCodeMap = [],
                       activeRooms = [(JStr ''r1'', [(''a'', RoomUser (JStr ''a@x.com'') ''a''),
                                                     (''b'', RoomUser (JStr ''b@x.com'') ''b'')])]\<rparr>,
               net = \<lparr>live = [(''a'', [JStr ''r1'', JStr ''a'']),
                              (''b'', [JStr ''r1'', JStr ''b''])],
                       closed = []\<rparr>\<rparr>"
  let ?L = "[(SocketJoin (JStr ''r1''), []),
              (SocketEmit (Joined (JStr ''r1'') (JStr ''b@x.com'')
                             [RoomUser (JStr ''a@x.com'') ''a'', RoomUser (JStr ''b@x.com'') ''b'']
                             (JStr ''// Start coding here...'')), [''b'']),
              (SocketTo (JStr ''r1'') (UserJoined (JStr ''b@x.com'') ''b''), [''a''])]"
  have h1: "run init ?E = Some ?W" by code_simp
  have h2: "step ''b'' (Join ?P) ?W = Some (?W', ?L)" by code_simp
  from broadcast_recipients[OF h1 h2] have "reaches ?W' ''b'' (JStr ''r1'') [''a'']"
    by simp
  with h1 h2 show ?thesis by blast
qed

section \<open>Rooms and their document entries\<close>

text \<open>
  Claim C1 says that \<^verbatim>\<open>roomCodeMap\<close> holds a value for a room exactly when the room
  exists, so that every room with members has a document entry. The join handler never
  writes \<^verbatim>\<open>roomCodeMap\<close>: the placeholder is produced when the entry is read. After a
  single join the room has a member and no document entry.
\<close>

theorem document_entry_counterexample:
  "map_option (activeRooms \<circ> tabs)
     (run init [(''a'', Connection),
                (''a'', Join (PObject [(''roomId'', JStr ''r1''), (''email'', JStr ''a@x.com'')]))])
   = Some [(JStr ''r1'', [(''a'', RoomUser (JStr ''a@x.com'') ''a'')])] \<and>
   map_option (roomCodeMap \<circ> tabs)
     (run init [(''a'', Connection),
                (''a'', Join (PObject [(''roomId'', JStr ''r1''), (''email'', JStr ''a@x.com'')]))])
   = Some []"
  by code_simp

text \<open>
  Claim C1, amended. In every reachable state each room record has at least one member.
  In every step from a reachable state, a document entry is deleted only if its room is
  destroyed in that step, and a room destroyed in a step has no document entry
  afterwards. After any sequence of connection, join and disconnect events, a room
  identifier without members has neither a room record nor a document entry.
\<close>

theorem rooms_and_documents:
  assumes "run init evs = Some w"
  shows "(\<forall>g room. jsmap_get (activeRooms (tabs w)) g = Some room \<longrightarrow> 0 < jsmap_size room) \<and>
         (\<forall>c ev w' log g. step c ev w = Some (w', log) \<longrightarrow>
            (jsmap_has (roomCodeMap (tabs w)) g \<and> \<not> jsmap_has (roomCodeMap (tabs w')) g \<longrightarrow>
               jsmap_has (activeRooms (tabs w)) g \<and> \<not> jsmap_has (activeRooms (tabs w')) g) \<and>
            (jsmap_has (activeRooms (tabs w)) g \<and> \<not> jsmap_has (activeRooms (tabs w')) g \<longrightarrow>
               \<not> jsmap_has (roomCodeMap (tabs w')) g)) \<and>
         (list_all (\<lambda>x. \<not> quiet (snd x)) evs \<longrightarrow>
            (\<forall>g. members (tabs w) g = [] \<longrightarrow>
               \<not> jsmap_has (activeRooms (tabs w)) g \<and> \<not> jsmap_has (roomCodeMap (tabs w)) g))"
proof (intro conjI allI impI)
  fix g room assume "jsmap_get (activeRooms (tabs w)) g = Some room"
  with run_rooms_ok[OF rooms_ok_init assms] show "0 < jsmap_size room"
    by (auto simp: rooms_ok_def jsmap_size_def)
next
  fix c ev w' log g
  assume "step c ev w = Some (w', log)"
    and "jsmap_has (roomCodeMap (tabs w)) g \<and> \<not> jsmap_has (roomCodeMap (tabs w')) g"
  with step_code_room[of c ev w w' log g] show "jsmap_has (activeRooms (tabs w)) g" by blast
next
  fix c ev w' log g
  assume "step c ev w = Some (w', log)"
    and "jsmap_has (roomCodeMap (tabs w)) g \<and> \<not> jsmap_has (roomCodeMap (tabs w')) g"
  with step_code_room[of c ev w w' log g] show "\<not> jsmap_has (activeRooms (tabs w')) g" by blast
next
  fix c ev w' log g
  assume "step c ev w = Some (w', log)"
    and "jsmap_has (activeRooms (tabs w)) g \<and> \<not> jsmap_has (activeRooms (tabs w')) g"
  with step_code_room[of c ev w w' log g] show "\<not> jsmap_has (roomCodeMap (tabs w')) g" by blast
next
  fix g assume "members (tabs w) g = []"
  with run_rooms_ok[OF rooms_ok_init assms] show "\<not> jsmap_has (activeRooms (tabs w)) g"
    by (auto simp: rooms_ok_def jsmap_has_get members_def jsmap_keys_Nil split: option.splits)
next
  fix g assume "list_all (\<lambda>x. \<not> quiet (snd x)) evs"
  from run_code_empty[OF _ assms this] have "roomCodeMap (tabs w) = []"
    by (simp add: init_def no_tables_def)
  then show "\<not> jsmap_has (roomCodeMap (tabs w)) g" by (simp add: jsmap_has_def)
qed

theorem rooms_and_documents_witness:
  "run init [(''a'', Connection),
             (''a'', Join (PObject [(''roomId'', JStr ''r1''), (''email'', JStr ''a@x.com'')])),
             (''a'', CodeChange (PObject [(''roomId'', JStr ''r1''), (''code'', JStr ''X'')]))]
     = Some \<lparr>tabs = \<lparr>userSocketMap = [(''a'', UserData (JStr ''a@x.com'') (JStr ''r1''))],
                      roomCodeMap = [(JStr ''r1'', JStr ''X'')],
                      activeRooms = [(JStr ''r1'', [(''a'', RoomUser (JStr ''a@x.com'') ''a'')])]\<rparr>,
              net = \<lparr>live = [(''a'', [JStr ''r1'', JStr ''a''])], closed = []\<rparr>\<rparr> \<and>
   0 < jsmap_size [(''a'', RoomUser (JStr ''a@x.com'') ''a'')] \<and>
   step ''a'' (Disconnect (JStr ''transport close''))
        \<lparr>tabs = \<lparr>userSocketMap = [(''a'', UserData (JStr ''a@x.com'') (JStr ''r1''))],
                  roomCodeMap = [(JStr ''r1'', JStr ''X'')],
                  activeRooms = [(JStr ''r1'', [(''a'', RoomUser (JStr ''a@x.com'') ''a'')])]\<rparr>,
          net = \<lparr>live = [(''a'', [JStr ''r1'', JStr ''a''])], closed = []\<rparr>\<rparr>
     = Some (\<lparr>tabs = \<lparr>userSocketMap = [], roomCodeMap = [], activeRooms = []\<rparr>,
               net = \<lparr>live = [], closed = [''a'']\<rparr>\<rparr>,
             [(SocketTo (JStr ''r1'') (UserDisconnected ''a'' (JStr ''a@x.com'')), [])]) \<and>
   jsmap_has [(JStr ''r1'', JStr ''X'')] (JStr ''r1'') \<and>
   \<not> jsmap_has ([] :: (jsval, jsval) jsmap) (JStr ''r1'') \<and>
   jsmap_has [(JStr ''r1'', [(''a'', RoomUser (JStr ''a@x.com'') ''a'')])] (JStr ''r1'') \<and>
   \<not> jsmap_has ([] :: (jsval, (sid, room_user) jsmap) jsmap) (JStr ''r1'') \<and>
   run init [(''a'', Connection),
             (''a'', Join (PObject [(''roomId'', JStr ''r1''), (''email'', JStr ''a@x.com'')])),
             (''a'', Disconnect (JStr ''transport close''))]
     = Some \<lparr>tabs = \<lparr>userSocketMap = [], roomCodeMap = [], activeRooms = []\<rparr>,
              net = \<lparr>live = [], closed = [''a'']\<rparr>\<rparr> \<and>
   list_all (\<lambda>x. \<not> quiet (snd x))
            [(''a'', Connection),
             (''a'', Join (PObject [(''roomId'', JStr ''r1''), (''email'', JStr ''a@x.com'')])),
             (''a'', Disconnect (JStr ''transport close''))] \<and>
   members \<lparr>userSocketMap = [], roomCodeMap = [], activeRooms = []\<rparr> (JStr ''r1'') = []"
proof -
  let ?E1 = "[(''a'', Connection),
             (''a'', Join (PObject [(''roomId'', JStr ''r1''), (''email'', JStr ''a@x.com'')])),
             (''a'', CodeChange (PObject [(''roomId'', JStr ''r1''), (''code'', JStr ''X'')]))]"
  let ?E2 = "[(''a'', Connection),
             (''a'', Join (PObject [(''roomId'', JStr ''r1''), (''email'', JStr ''a@x.com'')])),
             (''a'', Disconnect (JStr ''transport close''))]"
  let ?W1 = "\<lparr>tabs = \<lparr>userSocketMap = [(''a'', UserData (JStr ''a@x.com'') (JStr ''r1''))],
                      roomCodeMap = [(JStr ''r1'', JStr ''X'')],
                      activeRooms = [(JStr ''r1'', [(''a'', RoomUser (JStr ''a@x.com'') ''a'')])]\<rparr>,
              net = \<lparr>live = [(''a'', [JStr ''r1'', JStr ''a''])], closed = []\<rparr>\<rparr>"
  let ?W2 = "\<lparr>tabs = \<lparr>userSocketMap = [], roomCodeMap = [], activeRooms = []\<rparr>,
               net = \<lparr>live = [], closed = [''a'']\<rparr>\<rparr>"
  let ?L = "[(SocketTo (JStr ''r1'') (UserDisconnected ''a'' (JStr ''a@x.com'')), [])]"
  have h1: "run init ?E1 = Some ?W1" by code_simp
  have h2: "run init ?E2 = Some ?W2" by code_simp
  have s: "step ''a'' (Disconnect (JStr ''transport close'')) ?W1 = Some (?W2, ?L)" by code_simp
  have g: "jsmap_get (activeRooms (tabs ?W1)) (JStr ''r1'') = Some [(''a'', RoomUser (JStr ''a@x.com'') ''a'')]"
    by code_simp
  have c1: "jsmap_has (roomCodeMap (tabs ?W1)) (JStr ''r1'') \<and> \<not> jsmap_has (roomCodeMap (tabs ?W2)) (JStr ''r1'')"
    by code_simp
  have q: "list_all (\<lambda>x. \<not> quiet (snd x)) ?E2" by code_simp
  have m: "members (tabs ?W2) (JStr ''r1'') = []" by code_simp
  from rooms_and_documents[OF h1] g have a: "0 < jsmap_size [(''a'', RoomUser (JStr ''a@x.com'') ''a'')]"
    by blast
  from rooms_and_documents[OF h1] s c1
  have b: "jsmap_has (activeRooms (tabs ?W1)) (JStr ''r1'') \<and> \<not> jsmap_has (activeRooms (tabs ?W2)) (JStr ''r1'')"
    by blast
  from rooms_and_documents[OF h2] q m
  have d: "\<not> jsmap_has (activeRooms (tabs ?W2)) (JStr ''r1'') \<and> \<not> jsmap_has (roomCodeMap (tabs ?W2)) (JStr ''r1'')"
    by blast
  from h1 h2 s a b c1 d q m show ?thesis by simp
qed

section \<open>The joined acknowledgment\<close>

text \<open>
  Claim C4 (the code departs from it). The acknowledgment of a successful join carries the
  member list of the room after the joiner was added, in insertion order; its \<^verbatim>\<open>code\<close>
  field is \<^verbatim>\<open>roomCodeMap.get(roomId) || '// Start coding here...'\<close>. After a member has
  cleared the document, the stored content is the empty string, and the next joiner is
  sent the placeholder instead of the current content.
\<close>

theorem joined_after_clear:
  "map_option (roomCodeMap \<circ> tabs)
     (run init [(''a'', Connection),
                (''a'', Join (PObject [(''roomId'', JStr ''r1''), (''email'', JStr ''a@x.com'')])),
                (''a'', CodeChange (PObject [(''roomId'', JStr ''r1''), (''code'', JStr '''')])),
                (''b'', Connection)])
   = Some [(JStr ''r1'', JStr '''')] \<and>
   map_option snd
     (Option.bind
        (run init [(''a'', Connection),
                   (''a'', Join (PObject [(''roomId'', JStr ''r1''), (''email'', JStr ''a@x.com'')])),
                   (''a'', CodeChange (PObject [(''roomId'', JStr ''r1''), (''code'', JStr '''')])),
                   (''b'', Connection)])
        (step ''b'' (Join (PObject [(''roomId'', JStr ''r1''), (''email'', JStr ''b@x.com'')]))))
   = Some [(SocketJoin (JStr ''r1''), []),
           (SocketEmit (Joined (JStr ''r1'') (JStr ''b@x.com'')
                          [RoomUser (JStr ''a@x.com'') ''a'', RoomUser (JStr ''b@x.com'') ''b'']
                          (JStr ''// Start coding here...'')), [''b'']),
           (SocketTo (JStr ''r1'') (UserJoined (JStr ''b@x.com'') ''b''), [''a''])]"
  by code_simp

section \<open>Events without a payload\<close>

text \<open>
  Claim C5 (the code departs from it). The claim: an event with a malformed payload, a
  missing one included, is caught within its own handler and the sender's connection is
  not torn down. The handlers of join, code-change, cursor-move and selection-change
  wrap their body in \<^verbatim>\<open>try\<close>, but every handler destructures its argument in the
  parameter list, before the body; the signalling handlers have no \<^verbatim>\<open>try\<close>. For a payload
  that is \<^verbatim>\<open>undefined\<close> or \<^verbatim>\<open>null\<close> the TypeError therefore leaves the handler and the
  run ends, for each of the ten events. For every other payload the handler returns and
  the connections stay open (lemma \<open>fail_soft\<close>).
\<close>

theorem missing_payload_escapes:
  assumes "payload_of ev = Some p" and "nullish p"
  shows "handle c ev t = Inl TypeError \<and> step c ev w = None"
  using assms
  by (cases ev)
     (simp_all add: step_def join_def code_change_def cursor_move_def selection_change_def
        user_call_def call_accepted_def peer_nego_needed_def peer_nego_done_def
        screen_start_def screen_stop_def)

theorem missing_payload_escapes_witness:
  "payload_of (CursorMove (PValue JUndefined)) = Some (PValue JUndefined) \<and>
   nullish (PValue JUndefined) \<and>
   handle ''a'' (CursorMove (PValue JUndefined)) no_tables = Inl TypeError \<and>
   step ''a'' (CursorMove (PValue JUndefined))
        \<lparr>tabs = no_tables, net = \<lparr>live = [(''a'', [JStr ''a''])], closed = []\<rparr>\<rparr> = None"
proof -
  have h1: "payload_of (CursorMove (PValue JUndefined)) = Some (PValue JUndefined)" by simp
  have h2: "nullish (PValue JUndefined)" by simp
  from missing_payload_escapes[OF h1 h2, of "''a''" no_tables
         "\<lparr>tabs = no_tables, net = \<lparr>live = [(''a'', [JStr ''a''])], closed = []\<rparr>\<rparr>"]
    h1 h2
  show ?thesis by blast
qed

section \<open>A second join for another room\<close>

text \<open>
  Claim C9 says that after a second join for another room \<open>R2\<close> the later disconnect of
  the connection removes it only from \<open>R2\<close>, so that \<open>R1\<close> and its document are never
  destroyed by it. The disconnect cleans the room named by the \<^verbatim>\<open>userSocketMap\<close> entry at
  that time: after a third join, back to \<open>r1\<close>, it removes the connection from \<open>r1\<close>,
  destroys \<open>r1\<close> with its document and leaves the record in \<open>r2\<close>.
\<close>

theorem second_join_counterexample:
  "map_option tabs
     (run init [(''a'', Connection),
                (''a'', Join (PObject [(''roomId'', JStr ''r1''), (''email'', JStr ''a@x.com'')])),
                (''a'', CodeChange (PObject [(''roomId'', JStr ''r1''), (''code'', JStr ''X'')])),
                (''a'', Join (PObject [(''roomId'', JStr ''r2''), (''email'', JStr ''a@x.com'')])),
                (''a'', Join (PObject [(''roomId'', JStr ''r1''), (''email'', JStr ''a@x.com'')]))])
   = Some \<lparr>userSocketMap = [(''a'', UserData (JStr ''a@x.com'') (JStr ''r1''))],
            roomCodeMap = [(JStr ''r1'', JStr ''X'')],
            activeRooms = [(JStr ''r1'', [(''a'', RoomUser (JStr ''a@x.com'') ''a'')]),
                           (JStr ''r2'', [(''a'', RoomUser (JStr ''a@x.com'') ''a'')])]\<rparr> \<and>
   map_option tabs
     (run init [(''a'', Connection),
                (''a'', Join (PObject [(''roomId'', JStr ''r1''), (''email'', JStr ''a@x.com'')])),
                (''a'', CodeChange (PObject [(''roomId'', JStr ''r1''), (''code'', JStr ''X'')])),
                (''a'', Join (PObject [(''roomId'', JStr ''r2''), (''email'', JStr ''a@x.com'')])),
                (''a'', Join (PObject [(''roomId'', JStr ''r1''), (''email'', JStr ''a@x.com'')])),
                (''a'', Disconnect (JStr ''transport close''))])
   = Some \<lparr>userSocketMap = [], roomCodeMap = [],
            activeRooms = [(JStr ''r2'', [(''a'', RoomUser (JStr ''a@x.com'') ''a'')])]\<rparr>"
  by code_simp

text \<open>
  Claim C9, amended. Let an open connection be recorded in room \<open>R1\<close> and make a valid join
  for a different room \<open>R2\<close>. The join is processed, overwrites its \<^verbatim>\<open>userSocketMap\<close> entry
  to \<open>R2\<close>, adds it to the member set of \<open>R2\<close> and leaves the record of \<open>R1\<close> unchanged.
  After any further events in which this connection makes no valid join for yet another
  room, its disconnect is processed, removes its \<^verbatim>\<open>userSocketMap\<close> entry, removes it from
  \<open>R2\<close> and changes the room record and document entry of no other room; its record then
  stays in the member set of \<open>R1\<close> in every later state, so \<open>R1\<close> is never destroyed.
\<close>

theorem second_join_keeps_first_room:
  assumes "c \<in> set (members (tabs w) r1)" and "is_live (net w) c"
    and "truthy (get_field p ''roomId'')" and "truthy (get_field p ''email'')"
    and "get_field p ''roomId'' \<noteq> r1"
  shows "\<exists>w1 log1.
           step c (Join p) w = Some (w1, log1) \<and>
           jsmap_get (userSocketMap (tabs w1)) c =
             Some (UserData (get_field p ''email'') (get_field p ''roomId'')) \<and>
           set (members (tabs w1) (get_field p ''roomId'')) =
             insert c (set (members (tabs w) (get_field p ''roomId''))) \<and>
           jsmap_get (activeRooms (tabs w1)) r1 = jsmap_get (activeRooms (tabs w)) r1 \<and>
           (\<forall>evs w2.
              run w1 evs = Some w2 \<and> own_room_run c w1 evs \<and> is_live (net w2) c \<longrightarrow>
              (\<exists>w3 log3.
                 step c (Disconnect reason) w2 = Some (w3, log3) \<and>
                 jsmap_get (userSocketMap (tabs w3)) c = None \<and>
                 c \<notin> set (members (tabs w3) (get_field p ''roomId'')) \<and>
                 (\<forall>g. g \<noteq> get_field p ''roomId'' \<longrightarrow>
                    jsmap_get (activeRooms (tabs w3)) g = jsmap_get (activeRooms (tabs w2)) g \<and>
                    jsmap_get (roomCodeMap (tabs w3)) g = jsmap_get (roomCodeMap (tabs w2)) g) \<and>
                 (\<forall>evs' w4. run w3 evs' = Some w4 \<longrightarrow> c \<in> set (members (tabs w4) r1))))"
proof -
  let ?r2 = "get_field p ''roomId''"
  let ?em = "get_field p ''email''"
  from join_ok[OF assms(3,4), of c "tabs w"] obtain t1 effs1 where
    "join c p (tabs w) = Inr (t1, effs1)" by blast
  then have "handle c (Join p) (tabs w) = Inr (t1, effs1)" by simp
  from step_exists[OF assms(2) _ this] obtain w1 log1 where
    s1: "step c (Join p) w = Some (w1, log1)" by auto
  from step_Join_ok[OF s1 assms(3,4)]
  have u1: "userSocketMap (tabs w1) = jsmap_set (userSocketMap (tabs w)) c (UserData ?em ?r2)"
    and m1: "\<forall>g. set (members (tabs w1) g) =
               (if g = ?r2 then insert c (set (members (tabs w) g)) else set (members (tabs w) g))"
    and o1: "\<forall>g. g \<noteq> ?r2 \<longrightarrow>
               jsmap_get (activeRooms (tabs w1)) g = jsmap_get (activeRooms (tabs w)) g"
    by auto
  have a1: "jsmap_get (userSocketMap (tabs w1)) c = Some (UserData ?em ?r2)"
    by (simp add: u1 jsmap_get_set)
  have a2: "set (members (tabs w1) ?r2) = insert c (set (members (tabs w) ?r2))"
    using m1 by simp
  have a3: "jsmap_get (activeRooms (tabs w1)) r1 = jsmap_get (activeRooms (tabs w)) r1"
    using o1 assms(5) by auto
  have c1: "c \<in> set (members (tabs w1) r1)" using m1 assms(1) by auto
  have reg1: "\<exists>ud. jsmap_get (userSocketMap (tabs w1)) c = Some ud \<and> ud_roomId ud = ?r2"
    using a1 by simp
  have later: "\<forall>evs w2.
              run w1 evs = Some w2 \<and> own_room_run c w1 evs \<and> is_live (net w2) c \<longrightarrow>
              (\<exists>w3 log3.
                 step c (Disconnect reason) w2 = Some (w3, log3) \<and>
                 jsmap_get (userSocketMap (tabs w3)) c = None \<and>
                 c \<notin> set (members (tabs w3) ?r2) \<and>
                 (\<forall>g. g \<noteq> ?r2 \<longrightarrow>
                    jsmap_get (activeRooms (tabs w3)) g = jsmap_get (activeRooms (tabs w2)) g \<and>
                    jsmap_get (roomCodeMap (tabs w3)) g = jsmap_get (roomCodeMap (tabs w2)) g) \<and>
                 (\<forall>evs' w4. run w3 evs' = Some w4 \<longrightarrow> c \<in> set (members (tabs w4) r1)))"
  proof (intro allI impI)
    fix evs w2
    assume h: "run w1 evs = Some w2 \<and> own_room_run c w1 evs \<and> is_live (net w2) c"
    then have hr: "run w1 evs = Some w2" and ho: "own_room_run c w1 evs"
      and hl: "is_live (net w2) c" by auto
    from stay_run[OF hr ho hl reg1 c1] obtain ud where
      u2: "jsmap_get (userSocketMap (tabs w2)) c = Some ud" and ur: "ud_roomId ud = ?r2"
      and c2: "c \<in> set (members (tabs w2) r1)" by auto
    from disconnect_some[OF u2, of reason] obtain t3 effs3 where
      "disconnect c reason (tabs w2) = Inr (t3, effs3)" by blast
    then have "handle c (Disconnect reason) (tabs w2) = Inr (t3, effs3)" by simp
    from step_exists[OF hl _ this] obtain w3 log3 where
      s3: "step c (Disconnect reason) w2 = Some (w3, log3)" by auto
    from step_Disconnect[OF s3] obtain effs where
      n3: "net w3 = transport_close c (net w2)"
      and d3: "disconnect c reason (tabs w2) = Inr (tabs w3, effs)" by auto
    from disconnect_some[OF u2, of reason] d3 ur
    have u3: "userSocketMap (tabs w3) = jsmap_delete (userSocketMap (tabs w2)) c"
      and m3: "\<forall>g. members (tabs w3) g =
                 (if g = ?r2 then filter (\<lambda>d. d \<noteq> c) (members (tabs w2) g)
                  else members (tabs w2) g)"
      and o3: "\<forall>g. g \<noteq> ?r2 \<longrightarrow>
                 jsmap_get (activeRooms (tabs w3)) g = jsmap_get (activeRooms (tabs w2)) g \<and>
                 jsmap_get (roomCodeMap (tabs w3)) g = jsmap_get (roomCodeMap (tabs w2)) g"
      by auto
    have b1: "jsmap_get (userSocketMap (tabs w3)) c = None" by (simp add: u3 jsmap_get_delete)
    have b2: "c \<notin> set (members (tabs w3) ?r2)" using m3 by simp
    have c3: "c \<in> set (members (tabs w3) r1)" using m3 c2 assms(5) by auto
    have g1: "c \<in> set (closed (net w3))" and g2: "\<not> is_live (net w3) c"
      by (auto simp: n3 live_close is_live_def)
    have b4: "\<forall>evs' w4. run w3 evs' = Some w4 \<longrightarrow> c \<in> set (members (tabs w4) r1)"
    proof (intro allI impI)
      fix evs' w4 assume "run w3 evs' = Some w4"
      from gone_run[OF this g1 g2] c3 show "c \<in> set (members (tabs w4) r1)" by blast
    qed
    from s3 b1 b2 o3 b4
    show "\<exists>w3 log3.
                 step c (Disconnect reason) w2 = Some (w3, log3) \<and>
                 jsmap_get (userSocketMap (tabs w3)) c = None \<and>
                 c \<notin> set (members (tabs w3) ?r2) \<and>
                 (\<forall>g. g \<noteq> ?r2 \<longrightarrow>
                    jsmap_get (activeRooms (tabs w3)) g = jsmap_get (activeRooms (tabs w2)) g \<and>
                    jsmap_get (roomCodeMap (tabs w3)) g = jsmap_get (roomCodeMap (tabs w2)) g) \<and>
                 (\<forall>evs' w4. run w3 evs' = Some w4 \<longrightarrow> c \<in> set (members (tabs w4) r1))"
      by blast
  qed
  from s1 a1 a2 a3 later show ?thesis by blast
qed

theorem second_join_keeps_first_room_witness:
  "''a'' \<in> set (members
                 \<lparr>userSocketMap = [(''a'', UserData (JStr ''a@x.com'') (JStr ''r1''))],
                   roomCodeMap = [(JStr ''r1'', JStr ''X'')],
                   activeRooms = [(JStr ''r1'', [(''a'', RoomUser (JStr ''a@x.com'') ''a'')])]\<rparr>
                 (JStr ''r1'')) \<and>
   is_live \<lparr>live = [(''a'', [JStr ''r1'', JStr ''a''])], closed = []\<rparr> ''a'' \<and>
   truthy (get_field (PObject [(''roomId'', JStr ''r2''), (''email'', JStr ''a@x.com'')]) ''roomId'') \<and>
   truthy (get_field (PObject [(''roomId'', JStr ''r2''), (''email'', JStr ''a@x.com'')]) ''email'') \<and>
   get_field (PObject [(''roomId'', JStr ''r2''), (''email'', JStr ''a@x.com'')]) ''roomId'' \<noteq> JStr ''r1'' \<and>
   (\<exists>w1 log1 w2 w3 log3 w4.
      step ''a'' (Join (PObject [(''roomId'', JStr ''r2''), (''email'', JStr ''a@x.com'')]))
        \<lparr>tabs = \<lparr>userSocketMap = [(''a'', UserData (JStr ''a@x.com'') (JStr ''r1''))],
                  roomCodeMap = [(JStr ''r1'', JStr ''X'')],
                  activeRooms = [(JStr ''r1'', [(''a'', RoomUser (JStr ''a@x.com'') ''a'')])]\<rparr>,
          net = \<lparr>live = [(''a'', [JStr ''r1'', JStr ''a''])], closed = []\<rparr>\<rparr>
        = Some (w1, log1) \<and>
      run w1 [(''b'', Connection),
              (''b'', Join (PObject [(''roomId'', JStr ''r1''), (''email'', JStr ''b@x.com'')]))]
        = Some w2 \<and>
      own_room_run ''a'' w1
             [(''b'', Connection),
              (''b'', Join (PObject [(''roomId'', JStr ''r1''), (''email'', JStr ''b@x.com'')]))] \<and>
      is_live (net w2) ''a'' \<and>
      step ''a'' (Disconnect (JStr ''transport close'')) w2 = Some (w3, log3) \<and>
      jsmap_get (userSocketMap (tabs w3)) ''a'' = None \<and>
      run w3 [(''b'', Disconnect (JStr ''transport close''))] = Some w4 \<and>
      ''a'' \<in> set (members (tabs w4) (JStr ''r1'')))"
proof -
  let ?T = "\<lparr>userSocketMap = [(''a'', UserData (JStr ''a@x.com'') (JStr ''r1''))],
                   roomCodeMap = [(JStr ''r1'', JStr ''X'')],
                   activeRooms = [(JStr ''r1'', [(''a'', RoomUser (JStr ''a@x.com'') ''a'')])]\<rparr>"
  let ?N = "\<lparr>live = [(''a'', [JStr ''r1'', JStr ''a''])], closed = []\<rparr>"
  let ?W = "\<lparr>tabs = ?T, net = ?N\<rparr>"
  let ?P = "PObject [(''roomId'', JStr ''r2''), (''email'', JStr ''a@x.com'')]"
  let ?R = "JStr ''transport close''"
  let ?E = "[(''b'', Connection),
             (''b'', Join (PObject [(''roomId'', JStr ''r1''), (''email'', JStr ''b@x.com'')]))]"
  let ?E' = "[(''b'', Disconnect (JStr ''transport close''))]"
  have h1: "''a'' \<in> set (members (tabs ?W) (JStr ''r1''))" by code_simp
  have h2: "is_live (net ?W) ''a''" by code_simp
  have h3: "truthy (get_field ?P ''roomId'')" by simp
  have h4: "truthy (get_field ?P ''email'')" by simp
  have h5: "get_field ?P ''roomId'' \<noteq> JStr ''r1''" by simp
  from second_join_keeps_first_room[OF h1 h2 h3 h4 h5, of ?R] obtain w1 log1 where
    s1: "step ''a'' (Join ?P) ?W = Some (w1, log1)"
    and "jsmap_get (userSocketMap (tabs w1)) ''a'' =
           Some (UserData (get_field ?P ''email'') (get_field ?P ''roomId''))"
    and "set (members (tabs w1) (get_field ?P ''roomId'')) =
           insert ''a'' (set (members (tabs ?W) (get_field ?P ''roomId'')))"
    and "jsmap_get (activeRooms (tabs w1)) (JStr ''r1'') = jsmap_get (activeRooms (tabs ?W)) (JStr ''r1'')"
    and later: "\<forall>evs w2.
              run w1 evs = Some w2 \<and> own_room_run ''a'' w1 evs \<and> is_live (net w2) ''a'' \<longrightarrow>
              (\<exists>w3 log3.
                 step ''a'' (Disconnect ?R) w2 = Some (w3, log3) \<and>
                 jsmap_get (userSocketMap (tabs w3)) ''a'' = None \<and>
                 ''a'' \<notin> set (members (tabs w3) (get_field ?P ''roomId'')) \<and>
                 (\<forall>g. g \<noteq> get_field ?P ''roomId'' \<longrightarrow>
                    jsmap_get (activeRooms (tabs w3)) g = jsmap_get (activeRooms (tabs w2)) g \<and>
                    jsmap_get (roomCodeMap (tabs w3)) g = jsmap_get (roomCodeMap (tabs w2)) g) \<and>
                 (\<forall>evs' w4. run w3 evs' = Some w4 \<longrightarrow>
                    ''a'' \<in> set (members (tabs w4) (JStr ''r1''))))"
    by (elim exE conjE) (rule that, assumption+)
  let ?W1 = "\<lparr>tabs = \<lparr>userSocketMap = [(''a'', UserData (JStr ''a@x.com'') (JStr ''r2''))],
                      roomCodeMap = [(JStr ''r1'', JStr ''X'')],
                      activeRooms = [(JStr ''r1'', [(''a'', RoomUser (JStr ''a@x.com'') ''a'')]),
                                     (JStr ''r2'', [(''a'', RoomUser (JStr ''a@x.com'') ''a'')])]\<rparr>,
              net = \<lparr>live = [(''a'', [JStr ''r2'', JStr ''r1'', JStr ''a''])], closed = []\<rparr>\<rparr>"
  have e1: "map_option fst (step ''a'' (Join ?P) ?W) = Some ?W1" by code_simp
  with s1 have w1: "w1 = ?W1" by simp
  let ?W2 = "\<lparr>tabs = \<lparr>userSocketMap = [(''a'', UserData (JStr ''a@x.com'') (JStr ''r2'')),
                                        (''b'', UserData (JStr ''b@x.com'') (JStr ''r1''))],
                      roomCodeMap = [(JStr ''r1'', JStr ''X'')],
                      activeRooms = [(JStr ''r1'', [(''a'', RoomUser (JStr ''a@x.com'') ''a''),
                                                    (''b'', RoomUser (JStr ''b@x.com'') ''b'')]),
                                     (JStr ''r2'', [(''a'', RoomUser (JStr ''a@x.com'') ''a'')])]\<rparr>,
              net = \<lparr>live = [(''a'', [JStr ''r2'', JStr ''r1'', JStr ''a'']),
                             (''b'', [JStr ''r1'', JStr ''b''])], closed = []\<rparr>\<rparr>"
  have e2: "run ?W1 ?E = Some ?W2" by code_simp
  have e2o: "own_room_run ''a'' ?W1 ?E" by code_simp
  have e2l: "is_live (net ?W2) ''a''" by code_simp
  from later[unfolded w1, rule_format, OF conjI[OF e2 conjI[OF e2o e2l]]] obtain w3 log3 where
    s3: "step ''a'' (Disconnect ?R) ?W2 = Some (w3, log3)"
    and n3: "jsmap_get (userSocketMap (tabs w3)) ''a'' = None"
    and "''a'' \<notin> set (members (tabs w3) (get_field ?P ''roomId''))"
    and "\<forall>g. g \<noteq> get_field ?P ''roomId'' \<longrightarrow>
                    jsmap_get (activeRooms (tabs w3)) g = jsmap_get (activeRooms (tabs ?W2)) g \<and>
                    jsmap_get (roomCodeMap (tabs w3)) g = jsmap_get (roomCodeMap (tabs ?W2)) g"
    and f: "\<forall>evs' w4. run w3 evs' = Some w4 \<longrightarrow> ''a'' \<in> set (members (tabs w4) (JStr ''r1''))"
    by (elim exE conjE) (rule that, assumption+)
  let ?W3 = "\<lparr>tabs = \<lparr>userSocketMap = [(''b'', UserData (JStr ''b@x.com'') (JStr ''r1''))],
                      roomCodeMap = [(JStr ''r1'', JStr ''X'')],
                      activeRooms = [(JStr ''r1'', [(''a'', RoomUser (JStr ''a@x.com'') ''a''),
                                                    (''b'', RoomUser (JStr ''b@x.com'') ''b'')])]\<rparr>,
              net = \<lparr>live = [(''b'', [JStr ''r1'', JStr ''b''])], closed = [''a'']\<rparr>\<rparr>"
  have e3: "map_option fst (step ''a'' (Disconnect ?R) ?W2) = Some ?W3" by code_simp
  with s3 have w3: "w3 = ?W3" by simp
  let ?W4 = "\<lparr>tabs = \<lparr>userSocketMap = [],
                      roomCodeMap = [(JStr ''r1'', JStr ''X'')],
                      activeRooms = [(JStr ''r1'', [(''a'', RoomUser (JStr ''a@x.com'') ''a'')])]\<rparr>,
              net = \<lparr>live = [], closed = [''b'', ''a'']\<rparr>\<rparr>"
  have e4: "run ?W3 ?E' = Some ?W4" by code_simp
  from f[unfolded w3, rule_format, OF e4]
  have m4: "''a'' \<in> set (members (tabs ?W4) (JStr ''r1''))" .
  have c1: "step ''a'' (Join ?P) ?W = Some (?W1, log1)" using s1 w1 by simp
  have c3: "step ''a'' (Disconnect ?R) ?W2 = Some (?W3, log3)" using s3 w3 by simp
  have c5: "jsmap_get (userSocketMap (tabs ?W3)) ''a'' = None" using n3 w3 by simp
  have ex: "\<exists>w1 log1 w2 w3 log3 w4.
      step ''a'' (Join ?P) ?W = Some (w1, log1) \<and>
      run w1 ?E = Some w2 \<and> own_room_run ''a'' w1 ?E \<and> is_live (net w2) ''a'' \<and>
      step ''a'' (Disconnect ?R) w2 = Some (w3, log3) \<and>
      jsmap_get (userSocketMap (tabs w3)) ''a'' = None \<and>
      run w3 ?E' = Some w4 \<and> ''a'' \<in> set (members (tabs w4) (JStr ''r1''))"
    by (intro exI conjI) (rule c1, rule e2, rule e2o, rule e2l, rule c3, rule c5, rule e4, rule m4)
  have h1': "''a'' \<in> set (members ?T (JStr ''r1''))" using h1 by simp
  have h2': "is_live ?N ''a''" using h2 by simp
  from h1' h2' h3 h4 h5 ex show ?thesis by blast
qed


end
